theory Spec2Isabelle
  imports Complex_Main
begin

section \<open>Data model of \<^verbatim>\<open>sdp.py\<close>\<close>

text \<open>
  The class \<^verbatim>\<open>SDP\<close> studies the pencil \<open>xA + yB + zC + D\<close>. Python floats are modelled
  by \<^typ>\<open>real\<close>, Python integers by \<^typ>\<open>int\<close>, Python lists by HOL lists. An exception
  that leaves a method is a value of type \<open>error\<close>; since the methods mutate \<^verbatim>\<open>self\<close> in
  place, a raising call returns the error together with the object as it stands at the
  raise (\<open>Inl (e, s)\<close>), a returning call returns the object (\<open>Inr s\<close>).
\<close>

datatype error =
  NameError | IndexError | ValueError | IOError | OSError
  | CalledProcessError | LinAlgError | ZeroDivisionError

type_synonym point = "real list"

type_synonym mat = "real list list"

text \<open>An entry of \<^verbatim>\<open>pmins\<close> is the list \<^verbatim>\<open>[point, occurrences, eigenvalues]\<close>, an entry
  of \<^verbatim>\<open>nodes\<close> is \<^verbatim>\<open>[point, probability, eigenvalues]\<close>, an entry of \<^verbatim>\<open>spec_nodes\<close>
  and \<^verbatim>\<open>sym_nodes\<close> is \<^verbatim>\<open>[point, eigenvalues]\<close>.\<close>

type_synonym pmin = "point \<times> int \<times> real list"

type_synonym node = "point \<times> real \<times> real list"

record sdp =
  mins :: "point list"
  pmins :: "pmin list"
  nodes :: "node list"
  spec_nodes :: "(point \<times> real list) list"
  sym_nodes :: "(point \<times> real list) list"
  trials :: int
  psd_spec :: bool
  nsd_spec :: bool
  fully_bounded_directions :: int
  fully_unbounded_directions :: int
  matrices :: "mat list"

text \<open>\<^verbatim>\<open>__init__\<close> with the four matrices given (the random default matrices come from
  \<^verbatim>\<open>opt_utils.rand_matrix\<close>, outside the repository's source).\<close>

definition sdp_init :: "mat \<Rightarrow> mat \<Rightarrow> mat \<Rightarrow> mat \<Rightarrow> sdp" where
  "sdp_init A B C D =
     \<lparr> mins = [], pmins = [], nodes = [], spec_nodes = [], sym_nodes = [], trials = 0,
       psd_spec = True, nsd_spec = True,
       fully_bounded_directions = 0, fully_unbounded_directions = 0,
       matrices = [A, B, C, D] \<rparr>"

section \<open>The sampling loop \<^verbatim>\<open>solve\<close>\<close>

text \<open>
  The status \<^verbatim>\<open>cvx.get_status\<close> reports for a sub-problem. \<open>OTHER\<close> stands for any status
  that is none of the three the method compares with.
\<close>

datatype status = SOLVED | INFEASIBLE | UNBOUNDED | OTHER string

text \<open>
  The solver is external. What a call of \<^verbatim>\<open>cvx.Problem(...).solve\<close> answers is a parameter
  of the model: the status together with the values \<^verbatim>\<open>x.value, y.value, z.value\<close> the solver
  leaves in the variables. The answers of one trial are a pair, the PSD sub-problem's first;
  an answer is consulted only when the code makes the call. The solver is taken to answer
  every call it gets: an exception of its own is not among the answers.
\<close>

type_synonym answer = "status \<times> real \<times> real \<times> real"

type_synonym solver = "nat \<Rightarrow> answer \<times> answer"

datatype sense = PSD | NSD

text \<open>
  The activation record of one call of \<^verbatim>\<open>solve\<close>: the object, the local variable
  \<^verbatim>\<open>psd_status\<close> (\<open>None\<close> while unbound: it is assigned only inside
  \<^verbatim>\<open>if self.psd_spec\<close> and keeps its value from one iteration to the next), and the log of
  the solver calls made so far, each with the index of its trial. The log is no variable
  of the program: it records the calls of \<^verbatim>\<open>cvx.Problem(...).solve\<close>, the effect of the
  method on the world outside, and no branch of the model reads it.
\<close>

record frame =
  self :: sdp
  psd_status :: "status option"
  calls :: "(nat \<times> sense) list"

definition append_min :: "answer \<Rightarrow> sdp \<Rightarrow> sdp" where
  "append_min a s = (case a of (st, x, y, z) \<Rightarrow> s\<lparr>mins := mins s @ [[x, y, z]]\<rparr>)"

text \<open>Lines 156--163: the PSD sub-problem of trial \<open>i\<close>.\<close>

definition psd_block :: "nat \<Rightarrow> answer \<Rightarrow> frame \<Rightarrow> frame" where
  "psd_block i a fr =
     (if psd_spec (self fr) then
        (let fr1 = fr\<lparr>psd_status := Some (fst a), calls := calls fr @ [(i, PSD)]\<rparr> in
         if fst a = SOLVED then fr1\<lparr>self := append_min a (self fr1)\<rparr>
         else if fst a = INFEASIBLE then fr1\<lparr>self := (self fr1)\<lparr>psd_spec := False\<rparr>\<rparr>
         else fr1)
      else fr)"

text \<open>Reading the local \<^verbatim>\<open>psd_status\<close> in a comparison \<^verbatim>\<open>psd_status == c\<close>: an unbound
  local raises \<^verbatim>\<open>UnboundLocalError\<close>, a subclass of \<^verbatim>\<open>NameError\<close>.\<close>

definition psd_status_is :: "status \<Rightarrow> frame \<Rightarrow> error + bool" where
  "psd_status_is c fr = (case psd_status fr of None \<Rightarrow> Inl NameError | Some st \<Rightarrow> Inr (st = c))"

text \<open>Lines 166--178: the NSD sub-problem of trial \<open>i\<close>. The second branch is
  \<^verbatim>\<open>elif nsd_status == cvx.UNBOUNDED and psd_status == cvx.UNBOUNDED\<close>: the right operand
  is read only when the left one holds, and when the conjunction fails the chain goes on
  to \<^verbatim>\<open>elif nsd_status == cvx.INFEASIBLE\<close>.\<close>

definition nsd_block :: "nat \<Rightarrow> answer \<Rightarrow> frame \<Rightarrow> (error \<times> frame) + frame" where
  "nsd_block i a fr =
     (if nsd_spec (self fr) then
        (let fr1 = fr\<lparr>calls := calls fr @ [(i, NSD)]\<rparr> in
         if fst a = SOLVED then
           (let fr2 = fr1\<lparr>self := append_min a (self fr1)\<rparr> in
            case psd_status_is SOLVED fr2 of
              Inl e \<Rightarrow> Inl (e, fr2)
            | Inr True \<Rightarrow>
                Inr (fr2\<lparr>self := (self fr2)\<lparr>fully_bounded_directions :=
                                    fully_bounded_directions (self fr2) + 1\<rparr>\<rparr>)
            | Inr False \<Rightarrow> Inr fr2)
         else
           (case (if fst a = UNBOUNDED then psd_status_is UNBOUNDED fr1 else Inr False) of
              Inl e \<Rightarrow> Inl (e, fr1)
            | Inr True \<Rightarrow>
                Inr (fr1\<lparr>self := (self fr1)\<lparr>fully_unbounded_directions :=
                                    fully_unbounded_directions (self fr1) + 1\<rparr>\<rparr>)
            | Inr False \<Rightarrow>
                if fst a = INFEASIBLE then Inr (fr1\<lparr>self := (self fr1)\<lparr>nsd_spec := False\<rparr>\<rparr>)
                else Inr fr1))
      else Inr fr)"

text \<open>One iteration of \<^verbatim>\<open>for i in range(n)\<close>.\<close>

definition trial :: "nat \<Rightarrow> answer \<times> answer \<Rightarrow> frame \<Rightarrow> (error \<times> frame) + frame" where
  "trial i ans fr = nsd_block i (snd ans) (psd_block i (fst ans) fr)"

text \<open>The loop: \<open>k\<close> iterations are left, the next one has index \<open>i\<close>. An exception ends it.\<close>

fun solve_loop :: "solver \<Rightarrow> nat \<Rightarrow> nat \<Rightarrow> frame \<Rightarrow> (error \<times> frame) + frame" where
  "solve_loop orc 0 i fr = Inr fr"
| "solve_loop orc (Suc k) i fr =
     (case trial i (orc i) fr of
        Inl x \<Rightarrow> Inl x
      | Inr fr' \<Rightarrow> solve_loop orc k (Suc i) fr')"

text \<open>The frame a call starts with, and the frame it ends with: \<^verbatim>\<open>range(n)\<close> has
  \<open>nat n\<close> elements (none for a negative \<open>n\<close>).\<close>

definition enter :: "sdp \<Rightarrow> frame" where
  "enter s = \<lparr> self = s, psd_status = None, calls = [] \<rparr>"

definition solve_body :: "int \<Rightarrow> solver \<Rightarrow> sdp \<Rightarrow> (error \<times> frame) + frame" where
  "solve_body n orc s = solve_loop orc (nat n) 0 (enter s)"

text \<open>\<^verbatim>\<open>solve(n)\<close>: the loop, then \<^verbatim>\<open>self.trials += n\<close> (line 180), which a raising call
  never reaches.\<close>

definition solve :: "int \<Rightarrow> solver \<Rightarrow> sdp \<Rightarrow> (error \<times> sdp) + sdp" where
  "solve n orc s =
     (case solve_body n orc s of
        Inl (e, fr) \<Rightarrow> Inl (e, self fr)
      | Inr fr \<Rightarrow> Inr ((self fr)\<lparr>trials := trials (self fr) + n\<rparr>))"

text \<open>The frame a call ends with, whether it returns or raises, and the solver calls it
  made.\<close>

definition last_frame :: "(error \<times> frame) + frame \<Rightarrow> frame" where
  "last_frame r = (case r of Inl (e, fr) \<Rightarrow> fr | Inr fr \<Rightarrow> fr)"

definition solver_calls :: "int \<Rightarrow> solver \<Rightarrow> sdp \<Rightarrow> (nat \<times> sense) list" where
  "solver_calls n orc s = calls (last_frame (solve_body n orc s))"

text \<open>The object a call leaves behind, whether it returns or raises.\<close>

definition after :: "(error \<times> sdp) + sdp \<Rightarrow> sdp" where
  "after r = (case r of Inl (e, s) \<Rightarrow> s | Inr s \<Rightarrow> s)"

section \<open>The pencil and its signed eigenvalues\<close>

text \<open>
  \<^verbatim>\<open>matrix(vector)\<close>: \<^verbatim>\<open>vec\<close> is a copy of the vector with 1 appended, and the result is
  \<^verbatim>\<open>sum([vec[i] * self.matrices[i] for i in range(len(self.matrices))])\<close>. Reading
  \<^verbatim>\<open>vec[i]\<close> past the end raises \<^verbatim>\<open>IndexError\<close>. The arrays are numpy's: the product
  scales every entry, the sum adds entry by entry. Arrays of different shapes are reported
  as \<^verbatim>\<open>ValueError\<close> (numpy's stretching of dimensions of size one is not modelled), and
  so is the sum of no array at all, the integer 0 that \<^verbatim>\<open>linalg.svd\<close> rejects;
  \<^verbatim>\<open>self.matrices\<close> always holds the four arrays of the constructor.
\<close>

definition np_scale :: "real \<Rightarrow> mat \<Rightarrow> mat" where
  "np_scale c M = map (map (\<lambda>v. c * v)) M"

definition np_add :: "mat \<Rightarrow> mat \<Rightarrow> error + mat" where
  "np_add M N =
     (if map length M = map length N then Inr (map2 (map2 (\<lambda>a b. a + b)) M N)
      else Inl ValueError)"

fun scaled :: "real list \<Rightarrow> mat list \<Rightarrow> nat \<Rightarrow> error + mat list" where
  "scaled vec [] i = Inr []"
| "scaled vec (M # Ms) i =
     (if i < length vec then
        (case scaled vec Ms (Suc i) of
           Inl e \<Rightarrow> Inl e
         | Inr ts \<Rightarrow> Inr (np_scale (vec ! i) M # ts))
      else Inl IndexError)"

fun np_sum_from :: "mat \<Rightarrow> mat list \<Rightarrow> error + mat" where
  "np_sum_from acc [] = Inr acc"
| "np_sum_from acc (t # ts) =
     (case np_add acc t of Inl e \<Rightarrow> Inl e | Inr acc' \<Rightarrow> np_sum_from acc' ts)"

definition matrix :: "mat list \<Rightarrow> point \<Rightarrow> error + mat" where
  "matrix ms vector =
     (case scaled (vector @ [1]) ms 0 of
        Inl e \<Rightarrow> Inl e
      | Inr [] \<Rightarrow> Inl ValueError
      | Inr (t # ts) \<Rightarrow> np_sum_from t ts)"

text \<open>
  \<^verbatim>\<open>linalg.svd\<close> is external: it is a parameter of the model, answering either an
  error or the triple \<open>(U, s, Vh)\<close>. \<open>at2 M i j\<close> is the read \<^verbatim>\<open>M[i,j]\<close> of an array with
  indices that are not negative.
\<close>

type_synonym svd = "mat \<Rightarrow> error + (mat \<times> real list \<times> mat)"

definition at2 :: "mat \<Rightarrow> nat \<Rightarrow> nat \<Rightarrow> error + real" where
  "at2 M i j = (if i < length M \<and> j < length (M ! i) then Inr (M ! i ! j) else Inl IndexError)"

text \<open>Lines 77--79: \<^verbatim>\<open>for i in range(len(eivals))\<close>, flipping \<^verbatim>\<open>eivals[i]\<close> in place when
  \<^verbatim>\<open>svd[0][i,i] * svd[2][i,i] < 0\<close>.\<close>

fun sign_loop :: "mat \<Rightarrow> mat \<Rightarrow> nat list \<Rightarrow> real list \<Rightarrow> error + real list" where
  "sign_loop U Vh [] eivals = Inr eivals"
| "sign_loop U Vh (i # is) eivals =
     (case at2 U i i of
        Inl e \<Rightarrow> Inl e
      | Inr u \<Rightarrow>
          (case at2 Vh i i of
             Inl e \<Rightarrow> Inl e
           | Inr v \<Rightarrow>
               sign_loop U Vh is
                 (if u * v < 0 then eivals[i := eivals ! i * (- 1)] else eivals)))"

definition eigenvalues :: "svd \<Rightarrow> mat list \<Rightarrow> point \<Rightarrow> error + real list" where
  "eigenvalues sv ms vector =
     (case matrix ms vector of
        Inl e \<Rightarrow> Inl e
      | Inr M \<Rightarrow>
          (case sv M of
             Inl e \<Rightarrow> Inl e
           | Inr (U, s, Vh) \<Rightarrow> sign_loop U Vh [0..<length s] s))"

section \<open>Node discovery: \<^verbatim>\<open>get_nodes\<close>\<close>

text \<open>
  The test of lines 193--194, with Python's \<^verbatim>\<open>and\<close> and \<^verbatim>\<open>or\<close>: the right operand is
  evaluated only when the left one does not decide, so that a read \<^verbatim>\<open>e[i]\<close> past the end
  raises \<^verbatim>\<open>IndexError\<close> only when it is reached.
\<close>

definition ge0 :: "real list \<Rightarrow> nat \<Rightarrow> error + bool" where
  "ge0 e i = (if i < length e then Inr (e ! i \<ge> 0) else Inl IndexError)"

definition le0 :: "real list \<Rightarrow> nat \<Rightarrow> error + bool" where
  "le0 e i = (if i < length e then Inr (e ! i \<le> 0) else Inl IndexError)"

definition py_and :: "error + bool \<Rightarrow> error + bool \<Rightarrow> error + bool" where
  "py_and a b = (case a of Inl e \<Rightarrow> Inl e | Inr True \<Rightarrow> b | Inr False \<Rightarrow> Inr False)"

definition py_or :: "error + bool \<Rightarrow> error + bool \<Rightarrow> error + bool" where
  "py_or a b = (case a of Inl e \<Rightarrow> Inl e | Inr True \<Rightarrow> Inr True | Inr False \<Rightarrow> b)"

definition same_sign :: "real list \<Rightarrow> error + bool" where
  "same_sign e =
     py_or (py_and (ge0 e 0) (py_and (ge0 e 1) (ge0 e 2)))
           (py_and (le0 e 0) (py_and (le0 e 1) (le0 e 2)))"

text \<open>The loop of lines 191--197 over the points the handler returned.\<close>

fun classify :: "svd \<Rightarrow> point list \<Rightarrow> sdp \<Rightarrow> (error \<times> sdp) + sdp" where
  "classify sv [] s = Inr s"
| "classify sv (vector # vs) s =
     (case eigenvalues sv (matrices s) vector of
        Inl err \<Rightarrow> Inl (err, s)
      | Inr e \<Rightarrow>
          (case same_sign e of
             Inl err \<Rightarrow> Inl (err, s)
           | Inr True \<Rightarrow> classify sv vs (s\<lparr>spec_nodes := spec_nodes s @ [(vector, e)]\<rparr>)
           | Inr False \<Rightarrow> classify sv vs (s\<lparr>sym_nodes := sym_nodes s @ [(vector, e)]\<rparr>)))"

text \<open>
  \<^verbatim>\<open>get_nodes(handler)\<close> calls \<^verbatim>\<open>handler()\<close> once, before the loop. What that call answers
  (an exception, or the list of points) is the parameter \<open>h\<close>; for the default handler it
  is what \<^verbatim>\<open>get_nodes_from_singular\<close> answers.
\<close>

definition get_nodes :: "svd \<Rightarrow> error + point list \<Rightarrow> sdp \<Rightarrow> (error \<times> sdp) + sdp" where
  "get_nodes sv h s = (case h of Inl e \<Rightarrow> Inl (e, s) | Inr vs \<Rightarrow> classify sv vs s)"

section \<open>Matching minima to nodes: \<^verbatim>\<open>process\<close>\<close>

text \<open>
  numpy and scipy compute in double precision: the product \<^verbatim>\<open>tolerance * max(...)\<close>, the
  differences of \<^verbatim>\<open>numpy.array(x) - yy\<close> and the norm \<^verbatim>\<open>linalg.norm(v)\<close> are the rounded
  values, not the exact ones. What these three operations compute is a parameter of the
  model, as the decomposition is. Comparing two doubles and taking the largest of a list
  round nothing.
\<close>

record arith =
  fl_times :: "real \<Rightarrow> real \<Rightarrow> real"
  fl_minus :: "real \<Rightarrow> real \<Rightarrow> real"
  fl_norm :: "real list \<Rightarrow> real"

text \<open>The L2 norm of a vector, and the arithmetic that rounds nothing: the doubles
  follow it wherever the exact result is a double.\<close>

definition linalg_norm :: "real list \<Rightarrow> real" where
  "linalg_norm v = sqrt (sum_list (map (\<lambda>a. a * a) v))"

definition exact :: arith where
  "exact = \<lparr> fl_times = (\<lambda>a b. a * b), fl_minus = (\<lambda>a b. a - b), fl_norm = linalg_norm \<rparr>"

text \<open>\<^verbatim>\<open>numpy.array(x) - yy\<close> for two vectors: entry by entry when the lengths agree, a
  vector of one entry is stretched, any other pair of lengths raises \<^verbatim>\<open>ValueError\<close>.\<close>

definition np_sub :: "arith \<Rightarrow> real list \<Rightarrow> real list \<Rightarrow> error + real list" where
  "np_sub fl x y =
     (if length x = length y then Inr (map2 (fl_minus fl) x y)
      else if length x = 1 then Inr (map (\<lambda>b. fl_minus fl (hd x) b) y)
      else if length y = 1 then Inr (map (\<lambda>a. fl_minus fl a (hd y)) x)
      else Inl ValueError)"

text \<open>Lines 215--218: the loop over \<^verbatim>\<open>self.mins\<close> for one entry \<^verbatim>\<open>y\<close> of \<^verbatim>\<open>pmins\<close>, on
  the count \<^verbatim>\<open>y[1]\<close>. On an exception the count keeps the increments made so far.\<close>

fun count_loop ::
  "arith \<Rightarrow> real \<Rightarrow> point \<Rightarrow> point list \<Rightarrow> int \<Rightarrow> (error \<times> int) + int" where
  "count_loop fl maxdelta yy [] c = Inr c"
| "count_loop fl maxdelta yy (x # xs) c =
     (case np_sub fl x yy of
        Inl e \<Rightarrow> Inl (e, c)
      | Inr d \<Rightarrow>
          count_loop fl maxdelta yy xs (if fl_norm fl d \<le> maxdelta then c + 1 else c))"

text \<open>Lines 213--218: the loop over \<^verbatim>\<open>self.pmins\<close>; the result is the whole list.\<close>

fun match_loop ::
  "arith \<Rightarrow> real \<Rightarrow> point list \<Rightarrow> pmin list \<Rightarrow> (error \<times> pmin list) + pmin list" where
  "match_loop fl maxdelta ms [] = Inr []"
| "match_loop fl maxdelta ms ((p, c, e) # ys) =
     (case count_loop fl maxdelta p ms c of
        Inl (err, c') \<Rightarrow> Inl (err, (p, c', e) # ys)
      | Inr c' \<Rightarrow>
          (case match_loop fl maxdelta ms ys of
             Inl (err, ys') \<Rightarrow> Inl (err, (p, c', e) # ys')
           | Inr ys' \<Rightarrow> Inr ((p, c', e) # ys')))"

text \<open>Line 212: \<^verbatim>\<open>tolerance * max([linalg.norm(y[0]) for y in self.pmins])\<close>, reached only
  for a list that is not empty.\<close>

definition maxdelta_of :: "arith \<Rightarrow> real \<Rightarrow> pmin \<Rightarrow> pmin list \<Rightarrow> real" where
  "maxdelta_of fl tolerance y ys =
     fl_times fl tolerance
       (fold max (map (\<lambda>y. fl_norm fl (fst y)) ys) (fl_norm fl (fst y)))"

text \<open>Lines 207--210: discovery, when no node is known yet.\<close>

definition discover :: "svd \<Rightarrow> error + point list \<Rightarrow> sdp \<Rightarrow> (error \<times> sdp) + sdp" where
  "discover sv h s =
     (if spec_nodes s = [] \<and> sym_nodes s = [] then
        (case get_nodes sv h s of
           Inl x \<Rightarrow> Inl x
         | Inr s1 \<Rightarrow> Inr (s1\<lparr>pmins := map (\<lambda>node. (fst node, 0, snd node)) (spec_nodes s1)\<rparr>))
      else Inr s)"

text \<open>Lines 211--218.\<close>

definition match :: "arith \<Rightarrow> real \<Rightarrow> sdp \<Rightarrow> (error \<times> sdp) + sdp" where
  "match fl tolerance s =
     (case pmins s of
        [] \<Rightarrow> Inr s
      | y # ys \<Rightarrow>
          (case match_loop fl (maxdelta_of fl tolerance y ys) (mins s) (pmins s) of
             Inl (err, ps) \<Rightarrow> Inl (err, s\<lparr>pmins := ps\<rparr>)
           | Inr ps \<Rightarrow> Inr (s\<lparr>pmins := ps\<rparr>)))"

text \<open>\<^verbatim>\<open>process(tolerance)\<close>; line 220 empties \<^verbatim>\<open>mins\<close> when the method returns.\<close>

definition process ::
  "arith \<Rightarrow> svd \<Rightarrow> error + point list \<Rightarrow> real \<Rightarrow> sdp \<Rightarrow> (error \<times> sdp) + sdp" where
  "process fl sv h tolerance s =
     (case discover sv h s of
        Inl x \<Rightarrow> Inl x
      | Inr s1 \<Rightarrow>
          (case match fl tolerance s1 of
             Inl x \<Rightarrow> Inl x
           | Inr s2 \<Rightarrow> Inr (s2\<lparr>mins := []\<rparr>)))"

section \<open>Probabilities: \<^verbatim>\<open>gen_nodes\<close>\<close>

text \<open>The true division \<^verbatim>\<open>i[1] / self.trials\<close> of two integers
  (\<^verbatim>\<open>from __future__ import division\<close>).\<close>

definition py_truediv :: "int \<Rightarrow> int \<Rightarrow> error + real" where
  "py_truediv a b = (if b = 0 then Inl ZeroDivisionError else Inr (real_of_int a / real_of_int b))"

text \<open>Lines 236--237, appending to \<^verbatim>\<open>self.nodes\<close>.\<close>

fun ratio_loop :: "int \<Rightarrow> pmin list \<Rightarrow> node list \<Rightarrow> (error \<times> node list) + node list" where
  "ratio_loop t [] acc = Inr acc"
| "ratio_loop t ((p, c, e) # ps) acc =
     (case py_truediv c t of
        Inl err \<Rightarrow> Inl (err, acc)
      | Inr q \<Rightarrow> ratio_loop t ps (acc @ [(p, q, e)]))"

text \<open>Line 238: \<^verbatim>\<open>sort(key=lambda x: x[1], reverse=True)\<close>, a stable sort by descending
  probability.\<close>

definition sort_desc :: "node list \<Rightarrow> node list" where
  "sort_desc ns = sort_key (\<lambda>x. - fst (snd x)) ns"

text \<open>Lines 231--232: \<^verbatim>\<open>gen_nodes\<close> first calls \<^verbatim>\<open>process()\<close>, with the default tolerance
  \<^verbatim>\<open>1e-3\<close>, when there are raw minima or no symmetroid node is known.\<close>

definition prepare ::
  "arith \<Rightarrow> svd \<Rightarrow> error + point list \<Rightarrow> sdp \<Rightarrow> (error \<times> sdp) + sdp" where
  "prepare fl sv h s =
     (if mins s \<noteq> [] \<or> sym_nodes s = [] then process fl sv h (1 / 1000) s else Inr s)"

text \<open>\<^verbatim>\<open>gen_nodes()\<close>. The test \<^verbatim>\<open>self.trials is not 0\<close> compares an integer with the
  integer 0.\<close>

definition gen_nodes ::
  "arith \<Rightarrow> svd \<Rightarrow> error + point list \<Rightarrow> sdp \<Rightarrow> (error \<times> sdp) + sdp" where
  "gen_nodes fl sv h s =
     (case prepare fl sv h s of
        Inl x \<Rightarrow> Inl x
      | Inr s1 \<Rightarrow>
          (let s2 = s1\<lparr>nodes := []\<rparr> in
           if trials s2 \<noteq> 0 then
             (case ratio_loop (trials s2) (pmins s2) [] of
                Inl (err, ns) \<Rightarrow> Inl (err, s2\<lparr>nodes := ns\<rparr>)
              | Inr ns \<Rightarrow> Inr (s2\<lparr>nodes := sort_desc ns\<rparr>))
           else Inr (s2\<lparr>nodes := map (\<lambda>i. (fst i, 0, snd (snd i))) (pmins s2)\<rparr>)))"

section \<open>The default handler \<^verbatim>\<open>get_nodes_from_singular\<close>\<close>

text \<open>
  The handler stages a script in a temporary file, runs the external program
  \<^verbatim>\<open>singular\<close> on it, removes the file and parses the output. The file system is a record
  of the directories and of the files with their contents.
\<close>

record fs =
  dirs :: "string set"
  files :: "string \<rightharpoonup> string"

definition tmpdir :: string where
  "tmpdir = ''tmp''"

text \<open>\<^verbatim>\<open>str\<close> of a natural number.\<close>

definition digit :: "nat \<Rightarrow> char" where
  "digit d = ''0123456789'' ! d"

fun str_nat :: "nat \<Rightarrow> string" where
  "str_nat n = (if n < 10 then [digit n] else str_nat (n div 10) @ [digit (n mod 10)])"

declare str_nat.simps [simp del]

text \<open>
  What lies outside the method: the number \<^verbatim>\<open>random.randrange(2 ** 32)\<close> returns; the text
  \<^verbatim>\<open>print_singular_script\<close> writes into the open file, with the exception it raises, if
  any (the template may be missing); what \<^verbatim>\<open>subprocess.check_output\<close> answers, the output
  of the program or an exception (\<^verbatim>\<open>CalledProcessError\<close> for an exit status that is not 0,
  \<^verbatim>\<open>OSError\<close> for a missing program); and \<^verbatim>\<open>parse_singular_output\<close>, which no property
  below depends on.
\<close>

record ext =
  randrange :: nat
  script :: "string \<times> error option"
  singular :: "fs \<Rightarrow> string \<Rightarrow> error + string"
  parse_singular_output :: "string \<Rightarrow> error + point list"

text \<open>\<^verbatim>\<open>os.remove(path)\<close>.\<close>

definition os_remove :: "string \<Rightarrow> fs \<Rightarrow> error + fs" where
  "os_remove path w =
     (case files w path of
        None \<Rightarrow> Inl OSError
      | Some c \<Rightarrow> Inr (w\<lparr>files := (files w)(path := None)\<rparr>))"

text \<open>
  Lines 88--93. \<^verbatim>\<open>open(tmpfile,'w')\<close> needs the directory and creates the file; when the
  \<^verbatim>\<open>with\<close> block is left, by its end or by an exception, the file is closed and stays.
  The result is the file system after the call and what the call answers.
\<close>

definition get_nodes_from_singular :: "ext \<Rightarrow> fs \<Rightarrow> fs \<times> (error + point list)" where
  "get_nodes_from_singular x w =
     (let tmpfile = tmpdir @ ''/'' @ str_nat (randrange x) in
      if tmpdir \<notin> dirs w then (w, Inl IOError)
      else
        (let w1 = w\<lparr>files := (files w)(tmpfile \<mapsto> fst (script x))\<rparr> in
         case snd (script x) of
           Some e \<Rightarrow> (w1, Inl e)
         | None \<Rightarrow>
             (case singular x w1 tmpfile of
                Inl e \<Rightarrow> (w1, Inl e)
              | Inr output \<Rightarrow>
                  (case os_remove tmpfile w1 of
                     Inl e \<Rightarrow> (w1, Inl e)
                   | Inr w2 \<Rightarrow> (w2, parse_singular_output x output)))))"

section \<open>Runs\<close>

text \<open>A sequence of calls of \<^verbatim>\<open>solve\<close> on one object, each with its \<open>n\<close> and the solver's
  answers. A call that raises leaves the object as it stands, and the next call goes on
  from there. \<open>seq_calls\<close> lists the solver calls of the whole sequence, in order.\<close>

fun solve_seq :: "(int \<times> solver) list \<Rightarrow> sdp \<Rightarrow> sdp" where
  "solve_seq [] s = s"
| "solve_seq ((n, orc) # cs) s = solve_seq cs (after (solve n orc s))"

fun seq_calls :: "(int \<times> solver) list \<Rightarrow> sdp \<Rightarrow> sense list" where
  "seq_calls [] s = []"
| "seq_calls ((n, orc) # cs) s =
     map snd (solver_calls n orc s) @ seq_calls cs (after (solve n orc s))"

text \<open>The frame of a call of \<^verbatim>\<open>solve\<close> after its first \<open>j\<close> trials (the frame at the raise,
  when one of them raised).\<close>

definition frame_at :: "solver \<Rightarrow> sdp \<Rightarrow> nat \<Rightarrow> frame" where
  "frame_at orc s j = last_frame (solve_loop orc j 0 (enter s))"

text \<open>Both sub-problems of trial \<open>i\<close> were put to the solver, by the log, and both came
  back solved.\<close>

definition both_solved :: "solver \<Rightarrow> (nat \<times> sense) list \<Rightarrow> nat \<Rightarrow> bool" where
  "both_solved orc lg i =
     ((i, PSD) \<in> set lg \<and> (i, NSD) \<in> set lg
      \<and> fst (fst (orc i)) = SOLVED \<and> fst (snd (orc i)) = SOLVED)"

text \<open>A status that is none of solved, infeasible, unbounded.\<close>

definition other_status :: "status \<Rightarrow> bool" where
  "other_status st = (st \<noteq> SOLVED \<and> st \<noteq> INFEASIBLE \<and> st \<noteq> UNBOUNDED)"

section \<open>Notions of the statements\<close>

text \<open>What the frames of a call satisfy: the local \<^verbatim>\<open>psd_status\<close> holds the status solved
  only while \<^verbatim>\<open>psd_spec\<close> is set, and the log holds calls of trials before \<open>j\<close> only.\<close>

definition fresh :: "nat \<Rightarrow> frame \<Rightarrow> bool" where
  "fresh j fr =
     ((psd_status fr \<noteq> Some SOLVED \<or> psd_spec (self fr)) \<and> list_all (\<lambda>c. fst c < j) (calls fr))"





text \<open>In the words of the specification, over the values the program computes: the
  Euclidean distance of two points (the norm of their difference), the number of raw
  minima within a distance of a node, and the threshold, the product of the tolerance and
  the largest norm of a node of the list.\<close>

definition euclid :: "arith \<Rightarrow> point \<Rightarrow> point \<Rightarrow> real" where
  "euclid fl x y = fl_norm fl (map2 (fl_minus fl) x y)"

definition matched :: "arith \<Rightarrow> real \<Rightarrow> point \<Rightarrow> point list \<Rightarrow> nat" where
  "matched fl md p ms = length (filter (\<lambda>x. euclid fl x p \<le> md) ms)"

definition max_delta :: "arith \<Rightarrow> real \<Rightarrow> pmin list \<Rightarrow> real" where
  "max_delta fl tolerance ps =
     fl_times fl tolerance (Max (set (map (\<lambda>y. fl_norm fl (fst y)) ps)))"

text \<open>Every raw minimum and every node of \<^verbatim>\<open>pmins\<close> has \<open>d\<close> coordinates.\<close>

definition same_dim :: "nat \<Rightarrow> sdp \<Rightarrow> bool" where
  "same_dim d s =
     (list_all (\<lambda>x. length x = d) (mins s) \<and> list_all (\<lambda>y. length (fst y) = d) (pmins s))"

section \<open>Concrete inputs\<close>

text \<open>
  A pencil of three by three matrices: \<open>A\<close>, \<open>B\<close>, \<open>C\<close> are symmetric of trace 0 and
  independent, \<open>D\<close> is 0. Every matrix of the pencil has trace 0, so it is semidefinite
  only where it is 0, at the origin: both components are that single point.
\<close>

definition A0 :: mat where
  "A0 = [[1, 0, 0], [0, - 1, 0], [0, 0, 0]]"

definition B0 :: mat where
  "B0 = [[0, 0, 0], [0, 1, 0], [0, 0, - 1]]"

definition C0 :: mat where
  "C0 = [[0, 1, 0], [1, 0, 0], [0, 0, 0]]"

definition D0 :: mat where
  "D0 = [[0, 0, 0], [0, 0, 0], [0, 0, 0]]"

definition pencil0 :: sdp where
  "pencil0 = sdp_init A0 B0 C0 D0"

text \<open>Solvers: one that solves both sub-problems of every trial at the origin, one that
  finds both infeasible, one that finds the PSD sub-problem infeasible and solves the NSD
  one, one that reports an unknown status for the PSD sub-problem and solves the NSD one.\<close>

definition always_solved :: solver where
  "always_solved = (\<lambda>i. ((SOLVED, 0, 0, 0), (SOLVED, 0, 0, 0)))"

definition both_infeasible :: solver where
  "both_infeasible = (\<lambda>i. ((INFEASIBLE, 0, 0, 0), (INFEASIBLE, 0, 0, 0)))"

definition psd_infeasible :: solver where
  "psd_infeasible = (\<lambda>i. ((INFEASIBLE, 0, 0, 0), (SOLVED, 0, 0, 0)))"

definition unknown_then_solved :: solver where
  "unknown_then_solved = (\<lambda>i. ((OTHER ''unknown'', 0, 0, 0), (SOLVED, 1, 2, 3)))"

text \<open>A solver that solves the PSD sub-problem and reports an unknown status for the NSD
  one.\<close>

definition solved_then_unknown :: solver where
  "solved_then_unknown = (\<lambda>i. ((SOLVED, 1, 2, 3), (OTHER ''unknown'', 0, 0, 0)))"

text \<open>A solver that solves both sub-problems of every trial but the second, in which it
  finds the PSD sub-problem infeasible.\<close>

definition mixed :: solver where
  "mixed = (\<lambda>i. if i = 1 then ((INFEASIBLE, 0, 0, 0), (SOLVED, 0, 0, 0))
                 else ((SOLVED, 0, 0, 0), (SOLVED, 0, 0, 0)))"

text \<open>The object after one call \<^verbatim>\<open>solve(1)\<close> on the fresh pencil in which the solver found
  both sub-problems infeasible, and the object after one call in which it found the PSD
  sub-problem infeasible and solved the NSD one.\<close>

definition latched :: sdp where
  "latched = after (solve 1 both_infeasible pencil0)"

definition psd_latched :: sdp where
  "psd_latched = after (solve 1 psd_infeasible pencil0)"

text \<open>A file system with the directories the handler needs, and two worlds around the
  handler: one in which the program \<^verbatim>\<open>singular\<close> exits with a status that is not 0, one
  in which it answers.\<close>

definition fs0 :: fs where
  "fs0 = \<lparr> dirs = {''tmp'', ''data''}, files = Map.empty \<rparr>"

definition failing_singular :: ext where
  "failing_singular =
     \<lparr> randrange = 7, script = (''ideal I = 0;'', None),
       singular = (\<lambda>w path. Inl CalledProcessError),
       parse_singular_output = (\<lambda>out. Inr []) \<rparr>"

definition working_singular :: ext where
  "working_singular =
     \<lparr> randrange = 7, script = (''ideal I = 0;'', None),
       singular = (\<lambda>w path. Inr ''[1]''),
       parse_singular_output = (\<lambda>out. Inr []) \<rparr>"

text \<open>Singular value decompositions of two matrices of the pencil \<open>pencil0\<close>: of the
  matrix 0 at the origin, and of \<open>A0 = diag(1, -1, 0)\<close> at the point \<open>(1, 0, 0)\<close>.\<close>

definition I3 :: mat where
  "I3 = [[1, 0, 0], [0, 1, 0], [0, 0, 1]]"

definition svd0 :: svd where
  "svd0 M =
     (if M = D0 then Inr (I3, [0, 0, 0], I3)
      else if M = A0 then Inr (I3, [1, 1, 0], [[1, 0, 0], [0, - 1, 0], [0, 0, 1]])
      else Inl LinAlgError)"







text \<open>An object with two known nodes and two raw minima, on a pencil with
  \<open>A = diag(1, 1, 0)\<close> and \<open>D = 0\<close>, whose matrices at \<open>(1, 0, 0)\<close> and at the origin
  are \<open>diag(1, 1, 0)\<close> and 0. The first minimum lies at distance exactly 1 from the first
  node.\<close>

definition A2 :: mat where
  "A2 = [[1, 0, 0], [0, 1, 0], [0, 0, 0]]"

definition boundary_state :: sdp where
  "boundary_state =
     (sdp_init A2 B0 C0 D0)
       \<lparr>mins := [[0, 0, 0], [0, 1 / 2, 0]],
        pmins := [([1, 0, 0], 0, [1, 1, 0]), ([0, 0, 0], 0, [0, 0, 0])],
        spec_nodes := [([1, 0, 0], [1, 1, 0]), ([0, 0, 0], [0, 0, 0])],
        trials := 1\<rparr>"

text \<open>
  The doubles \<open>0.1\<close> and \<open>0.30000000000000004\<close>, as the rationals they are. The product
  of the doubles \<open>0.1\<close> and \<open>3.0\<close> lies between two doubles and is rounded up to the
  second: \<open>rounding\<close> is an arithmetic that computes this product as the doubles do, and
  is exact elsewhere. \<open>rounded_state\<close> is an object on the pencil of \<open>boundary_state\<close>
  with the nodes \<open>(3, 0, 0)\<close> and the origin and one raw minimum, at distance
  \<open>0.30000000000000004\<close> from the origin.
\<close>

definition tenth :: real where
  "tenth = 3602879701896397 / 36028797018963968"

definition d30 :: real where
  "d30 = 1351079888211149 / 4503599627370496"

definition rounding :: arith where
  "rounding =
     \<lparr> fl_times = (\<lambda>a b. if a = tenth \<and> b = 3 then d30 else a * b),
       fl_minus = (\<lambda>a b. a - b), fl_norm = linalg_norm \<rparr>"

definition rounded_state :: sdp where
  "rounded_state =
     (sdp_init A2 B0 C0 D0)
       \<lparr>mins := [[d30, 0, 0]],
        pmins := [([3, 0, 0], 0, [3, 3, 0]), ([0, 0, 0], 0, [0, 0, 0])],
        spec_nodes := [([3, 0, 0], [3, 3, 0]), ([0, 0, 0], [0, 0, 0])],
        trials := 1\<rparr>"

text \<open>
  A second pencil with the same \<open>A\<close>, \<open>B\<close>, \<open>C\<close> and \<open>D = -A\<close>: its matrix at the point
  \<open>(1, 0, 0)\<close> is 0 and every matrix of the pencil has trace 0, so both components are the
  single point \<open>(1, 0, 0)\<close>, and every objective is minimised there over either component.
  The solver \<open>solved_at_node\<close> answers so; \<open>sampled_once\<close> is the object after one call
  \<^verbatim>\<open>solve(1)\<close> on the fresh pencil.
\<close>

definition D1 :: mat where
  "D1 = [[- 1, 0, 0], [0, 1, 0], [0, 0, 0]]"

definition pencil1 :: sdp where
  "pencil1 = sdp_init A0 B0 C0 D1"

definition solved_at_node :: solver where
  "solved_at_node = (\<lambda>i. ((SOLVED, 1, 0, 0), (SOLVED, 1, 0, 0)))"

definition sampled_once :: sdp where
  "sampled_once = after (solve 1 solved_at_node pencil1)"

section \<open>Properties of \<^verbatim>\<open>solve\<close>\<close>

subsection \<open>The two blocks of a trial\<close>

lemma last_frame_simps [simp]:
  "last_frame (Inl (e, fr)) = fr" "last_frame (Inr fr) = fr"
  by (simp_all add: last_frame_def)

lemma psd_block_nsd_spec: "nsd_spec (self (psd_block i a fr)) = nsd_spec (self fr)"
  by (simp add: psd_block_def append_min_def Let_def split: prod.splits)

lemma psd_block_calls:
  "calls (psd_block i a fr) = calls fr @ (if psd_spec (self fr) then [(i, PSD)] else [])"
  by (simp add: psd_block_def Let_def)

lemma psd_block_psd_spec:
  "psd_spec (self (psd_block i a fr)) = (psd_spec (self fr) \<and> fst a \<noteq> INFEASIBLE)"
  by (simp add: psd_block_def append_min_def Let_def split: prod.splits)

lemma psd_block_counter:
  "fully_bounded_directions (self (psd_block i a fr)) = fully_bounded_directions (self fr)"
  by (simp add: psd_block_def append_min_def Let_def split: prod.splits)

lemma psd_block_status:
  "psd_status (psd_block i a fr) = (if psd_spec (self fr) then Some (fst a) else psd_status fr)"
  by (simp add: psd_block_def Let_def)

lemma nsd_block_calls:
  "calls (last_frame (nsd_block i a fr)) =
     calls fr @ (if nsd_spec (self fr) then [(i, NSD)] else [])"
  by (simp add: nsd_block_def psd_status_is_def Let_def
      split: option.splits sum.splits bool.splits)

lemma nsd_block_psd_part:
  "psd_status (last_frame (nsd_block i a fr)) = psd_status fr"
  "psd_spec (self (last_frame (nsd_block i a fr))) = psd_spec (self fr)"
  by (simp_all add: nsd_block_def psd_status_is_def append_min_def Let_def
      split: option.splits sum.splits bool.splits prod.splits)

lemma nsd_block_nsd_spec:
  "nsd_spec (self (last_frame (nsd_block i a fr))) \<Longrightarrow> nsd_spec (self fr)"
  by (simp add: nsd_block_def psd_status_is_def append_min_def Let_def
      split: option.splits sum.splits bool.splits prod.splits if_splits)

lemma nsd_block_counter:
  "fully_bounded_directions (self (last_frame (nsd_block i a fr))) =
     fully_bounded_directions (self fr) +
     (if nsd_spec (self fr) \<and> fst a = SOLVED \<and> psd_status fr = Some SOLVED then 1 else 0)"
  by (simp add: nsd_block_def psd_status_is_def append_min_def Let_def
      split: option.splits sum.splits bool.splits prod.splits)

subsection \<open>The latches\<close>

lemma trial_psd_latch:
  assumes "\<not> psd_spec (self fr)"
  shows "\<not> psd_spec (self (last_frame (trial i ans fr)))"
    and "filter (\<lambda>c. snd c = PSD) (calls (last_frame (trial i ans fr))) =
         filter (\<lambda>c. snd c = PSD) (calls fr)"
  using assms
  by (simp_all add: trial_def nsd_block_psd_part psd_block_psd_spec nsd_block_calls
      psd_block_calls)

lemma trial_nsd_latch:
  assumes "\<not> nsd_spec (self fr)"
  shows "\<not> nsd_spec (self (last_frame (trial i ans fr)))"
    and "filter (\<lambda>c. snd c = NSD) (calls (last_frame (trial i ans fr))) =
         filter (\<lambda>c. snd c = NSD) (calls fr)"
  using assms nsd_block_nsd_spec [of i "snd ans" "psd_block i (fst ans) fr"]
  by (auto simp add: trial_def psd_block_nsd_spec nsd_block_calls psd_block_calls)

lemma loop_psd_latch:
  "\<not> psd_spec (self fr) \<Longrightarrow>
     \<not> psd_spec (self (last_frame (solve_loop orc k i fr))) \<and>
     filter (\<lambda>c. snd c = PSD) (calls (last_frame (solve_loop orc k i fr))) =
       filter (\<lambda>c. snd c = PSD) (calls fr)"
proof (induction k arbitrary: i fr)
  case 0
  then show ?case by simp
next
  case (Suc k)
  show ?case
  proof (cases "trial i (orc i) fr")
    case (Inl x)
    then show ?thesis
      using trial_psd_latch [OF Suc.prems, of i "orc i"] by (cases x) simp
  next
    case (Inr fr')
    then show ?thesis
      using trial_psd_latch [OF Suc.prems, of i "orc i"] Suc.IH [of fr' "Suc i"] by simp
  qed
qed

lemma loop_nsd_latch:
  "\<not> nsd_spec (self fr) \<Longrightarrow>
     \<not> nsd_spec (self (last_frame (solve_loop orc k i fr))) \<and>
     filter (\<lambda>c. snd c = NSD) (calls (last_frame (solve_loop orc k i fr))) =
       filter (\<lambda>c. snd c = NSD) (calls fr)"
proof (induction k arbitrary: i fr)
  case 0
  then show ?case by simp
next
  case (Suc k)
  show ?case
  proof (cases "trial i (orc i) fr")
    case (Inl x)
    then show ?thesis
      using trial_nsd_latch [OF Suc.prems, of i "orc i"] by (cases x) simp
  next
    case (Inr fr')
    then show ?thesis
      using trial_nsd_latch [OF Suc.prems, of i "orc i"] Suc.IH [of fr' "Suc i"] by simp
  qed
qed

lemma after_solve:
  "psd_spec (after (solve n orc s)) = psd_spec (self (last_frame (solve_body n orc s)))"
  "nsd_spec (after (solve n orc s)) = nsd_spec (self (last_frame (solve_body n orc s)))"
  by (simp_all add: solve_def after_def split: sum.splits prod.splits)

lemma solve_psd_latch:
  assumes "\<not> psd_spec s"
  shows "\<not> psd_spec (after (solve n orc s))"
    and "PSD \<notin> set (map snd (solver_calls n orc s))"
proof -
  have e: "\<not> psd_spec (self (enter s))" using assms by (simp add: enter_def)
  note l = loop_psd_latch [OF e, of orc "nat n" 0]
  show "\<not> psd_spec (after (solve n orc s))"
    using l by (simp add: after_solve solve_body_def)
  have "filter (\<lambda>c. snd c = PSD) (solver_calls n orc s) = []"
    using l by (simp add: solver_calls_def solve_body_def enter_def)
  then show "PSD \<notin> set (map snd (solver_calls n orc s))"
    by (auto simp: filter_empty_conv)
qed

lemma solve_nsd_latch:
  assumes "\<not> nsd_spec s"
  shows "\<not> nsd_spec (after (solve n orc s))"
    and "NSD \<notin> set (map snd (solver_calls n orc s))"
proof -
  have e: "\<not> nsd_spec (self (enter s))" using assms by (simp add: enter_def)
  note l = loop_nsd_latch [OF e, of orc "nat n" 0]
  show "\<not> nsd_spec (after (solve n orc s))"
    using l by (simp add: after_solve solve_body_def)
  have "filter (\<lambda>c. snd c = NSD) (solver_calls n orc s) = []"
    using l by (simp add: solver_calls_def solve_body_def enter_def)
  then show "NSD \<notin> set (map snd (solver_calls n orc s))"
    by (auto simp: filter_empty_conv)
qed

lemma seq_psd_latch:
  "\<not> psd_spec s \<Longrightarrow> \<not> psd_spec (solve_seq cs s) \<and> PSD \<notin> set (seq_calls cs s)"
proof (induction cs arbitrary: s)
  case Nil
  then show ?case by simp
next
  case (Cons c cs)
  obtain n orc where c: "c = (n, orc)" by (cases c)
  show ?case
    using solve_psd_latch [OF Cons.prems, of n orc] Cons.IH [of "after (solve n orc s)"]
    by (simp add: c)
qed

lemma seq_nsd_latch:
  "\<not> nsd_spec s \<Longrightarrow> \<not> nsd_spec (solve_seq cs s) \<and> NSD \<notin> set (seq_calls cs s)"
proof (induction cs arbitrary: s)
  case Nil
  then show ?case by simp
next
  case (Cons c cs)
  obtain n orc where c: "c = (n, orc)" by (cases c)
  show ?case
    using solve_nsd_latch [OF Cons.prems, of n orc] Cons.IH [of "after (solve n orc s)"]
    by (simp add: c)
qed

text \<open>
  Claim C2. Once \<^verbatim>\<open>psd_spec\<close> (respectively \<^verbatim>\<open>nsd_spec\<close>) is false it stays false and the
  sub-problem is never put to the solver again. Inside a call: from any frame in which the
  flag is false, whatever the number \<open>k\<close> of trials still to run and whatever the solver
  answers, the flag is false in the frame the loop ends with and the log gains no call of
  that sub-problem. Across calls: from any object in which the flag is false, after any
  sequence of calls of \<^verbatim>\<open>solve\<close> the flag is false and the sequence made no call of that
  sub-problem.
\<close>

theorem latches_are_monotone:
  "(\<not> psd_spec (self fr) \<longrightarrow>
      \<not> psd_spec (self (last_frame (solve_loop orc k i fr))) \<and>
      filter (\<lambda>c. snd c = PSD) (calls (last_frame (solve_loop orc k i fr))) =
        filter (\<lambda>c. snd c = PSD) (calls fr)) \<and>
   (\<not> nsd_spec (self fr) \<longrightarrow>
      \<not> nsd_spec (self (last_frame (solve_loop orc k i fr))) \<and>
      filter (\<lambda>c. snd c = NSD) (calls (last_frame (solve_loop orc k i fr))) =
        filter (\<lambda>c. snd c = NSD) (calls fr)) \<and>
   (\<not> psd_spec s \<longrightarrow> \<not> psd_spec (solve_seq cs s) \<and> PSD \<notin> set (seq_calls cs s)) \<and>
   (\<not> nsd_spec s \<longrightarrow> \<not> nsd_spec (solve_seq cs s) \<and> NSD \<notin> set (seq_calls cs s))"
  using loop_psd_latch [of fr orc k i] loop_nsd_latch [of fr orc k i]
    seq_psd_latch [of s cs] seq_nsd_latch [of s cs]
  by blast

lemmas run_defs = solve_def solve_body_def after_def trial_def psd_block_def nsd_block_def
  enter_def psd_status_is_def append_min_def Let_def pencil0_def sdp_init_def

theorem latches_are_monotone_witness:
  "\<not> psd_spec latched \<and> \<not> nsd_spec latched \<and>
   \<not> psd_spec (self (last_frame (solve_loop always_solved 2 0 (enter latched)))) \<and>
   \<not> nsd_spec (self (last_frame (solve_loop always_solved 2 0 (enter latched)))) \<and>
   filter (\<lambda>c. snd c = PSD)
     (calls (last_frame (solve_loop always_solved 2 0 (enter latched)))) = [] \<and>
   filter (\<lambda>c. snd c = NSD)
     (calls (last_frame (solve_loop always_solved 2 0 (enter latched)))) = [] \<and>
   \<not> psd_spec (solve_seq [(2, always_solved), (1, always_solved)] latched) \<and>
   \<not> nsd_spec (solve_seq [(2, always_solved), (1, always_solved)] latched) \<and>
   PSD \<notin> set (seq_calls [(2, always_solved), (1, always_solved)] latched) \<and>
   NSD \<notin> set (seq_calls [(2, always_solved), (1, always_solved)] latched)"
proof -
  have s: "latched = pencil0\<lparr>psd_spec := False, nsd_spec := False, trials := 1\<rparr>"
    by (simp add: latched_def run_defs both_infeasible_def)
  have h: "\<not> psd_spec (self (enter latched))" "\<not> nsd_spec (self (enter latched))"
    "\<not> psd_spec latched" "\<not> nsd_spec latched" "calls (enter latched) = []"
    by (simp_all add: s enter_def)
  show ?thesis
    using latches_are_monotone [of "enter latched" always_solved 2 0 latched
        "[(2, always_solved), (1, always_solved)]"] h
    by simp
qed

subsection \<open>The counter of doubly bounded directions\<close>

lemma solve_loop_snoc:
  "solve_loop orc (Suc k) i fr =
     (case solve_loop orc k i fr of
        Inl x \<Rightarrow> Inl x
      | Inr fr' \<Rightarrow> trial (i + k) (orc (i + k)) fr')"
proof (induction k arbitrary: i fr)
  case 0
  then show ?case by (simp split: sum.splits)
next
  case (Suc k)
  show ?case
  proof (cases "trial i (orc i) fr")
    case (Inl x)
    have a: "solve_loop orc (Suc (Suc k)) i fr = Inl x"
      by (subst solve_loop.simps(2)) (simp only: Inl sum.case)
    have b: "solve_loop orc (Suc k) i fr = Inl x"
      by (subst solve_loop.simps(2)) (simp only: Inl sum.case)
    show ?thesis by (simp only: a b sum.case)
  next
    case (Inr fr')
    have a: "solve_loop orc (Suc (Suc k)) i fr = solve_loop orc (Suc k) (Suc i) fr'"
      by (subst solve_loop.simps(2)) (simp only: Inr sum.case)
    have b: "solve_loop orc (Suc k) i fr = solve_loop orc k (Suc i) fr'"
      by (subst solve_loop.simps(2)) (simp only: Inr sum.case)
    have "solve_loop orc (Suc (Suc k)) i fr =
            (case solve_loop orc k (Suc i) fr' of
               Inl x \<Rightarrow> Inl x
             | Inr fr'' \<Rightarrow> trial (Suc i + k) (orc (Suc i + k)) fr'')"
      unfolding a by (rule Suc.IH)
    then show ?thesis by (simp only: b add_Suc add_Suc_right)
  qed
qed

lemma fresh_mono: "fresh j fr \<Longrightarrow> j \<le> j' \<Longrightarrow> fresh j' fr"
  by (auto simp: fresh_def list_all_iff)

lemma psd_block_fresh: "fresh i fr \<Longrightarrow> fresh (Suc i) (psd_block i a fr)"
  by (auto simp: fresh_def psd_block_def append_min_def Let_def list_all_iff split: prod.splits)

lemma trial_fresh: "fresh i fr \<Longrightarrow> fresh (Suc i) (last_frame (trial i ans fr))"
  using psd_block_fresh [of i fr "fst ans"]
  by (auto simp: trial_def fresh_def nsd_block_psd_part nsd_block_calls list_all_iff)

lemma loop_fresh: "fresh i fr \<Longrightarrow> fresh (i + k) (last_frame (solve_loop orc k i fr))"
proof (induction k arbitrary: i fr)
  case 0
  then show ?case by simp
next
  case (Suc k)
  show ?case
  proof (cases "trial i (orc i) fr")
    case (Inl x)
    then show ?thesis
      using trial_fresh [OF Suc.prems, of "orc i"] fresh_mono [of "Suc i" _ "i + Suc k"]
      by (cases x) simp
  next
    case (Inr fr')
    then show ?thesis
      using trial_fresh [OF Suc.prems, of "orc i"] Suc.IH [of "Suc i" fr'] by simp
  qed
qed

lemma frame_at_fresh: "fresh j (frame_at orc s j)"
  using loop_fresh [of 0 "enter s" j orc]
  by (simp add: frame_at_def fresh_def enter_def)

lemma trial_counts:
  assumes "fresh i fr"
  shows "fully_bounded_directions (self (last_frame (trial i ans fr))) =
           fully_bounded_directions (self fr) +
           (if both_solved (\<lambda>j. ans) (calls (last_frame (trial i ans fr))) i then 1 else 0)"
proof -
  have old: "(i, PSD) \<notin> set (calls fr)" "(i, NSD) \<notin> set (calls fr)"
    using assms by (auto simp: fresh_def list_all_iff)
  have st: "psd_status fr = Some SOLVED \<Longrightarrow> psd_spec (self fr)"
    using assms by (auto simp: fresh_def)
  show ?thesis
    using old st
    by (auto simp: both_solved_def trial_def nsd_block_counter nsd_block_calls psd_block_calls
        psd_block_counter psd_block_status psd_block_nsd_spec)
qed

lemma frame_step:
  "fully_bounded_directions (self (frame_at orc s (Suc j))) =
     fully_bounded_directions (self (frame_at orc s j)) +
     (if both_solved orc (calls (frame_at orc s (Suc j))) j then 1 else 0)"
proof (cases "solve_loop orc j 0 (enter s)")
  case (Inl x)
  obtain e fr where x: "x = (e, fr)" by (cases x)
  have same: "frame_at orc s (Suc j) = fr" "frame_at orc s j = fr"
    by (simp_all add: frame_at_def solve_loop_snoc Inl x del: solve_loop.simps)
  have "fresh j fr" using frame_at_fresh [of j orc s] same by simp
  then have "\<not> both_solved orc (calls fr) j"
    by (auto simp: fresh_def both_solved_def list_all_iff)
  then show ?thesis by (simp add: same)
next
  case (Inr fr)
  have now: "frame_at orc s j = fr" by (simp add: frame_at_def Inr)
  have nxt: "frame_at orc s (Suc j) = last_frame (trial j (orc j) fr)"
    by (simp add: frame_at_def solve_loop_snoc Inr del: solve_loop.simps)
  have "fresh j fr" using frame_at_fresh [of j orc s] now by simp
  from trial_counts [OF this, of "orc j"] show ?thesis
    by (simp add: now nxt both_solved_def)
qed

lemma solve_counter:
  "fully_bounded_directions (after (solve n orc s)) =
     fully_bounded_directions (self (frame_at orc s (nat n)))"
  by (simp add: solve_def after_def frame_at_def solve_body_def split: sum.splits prod.splits)

lemma trial_flags:
  assumes "fresh i fr"
  shows "fully_bounded_directions (self (last_frame (trial i ans fr))) =
           fully_bounded_directions (self fr) +
           (if psd_spec (self fr) \<and> nsd_spec (self fr) \<and>
               fst (fst ans) = SOLVED \<and> fst (snd ans) = SOLVED then 1 else 0)"
    and "((i, PSD) \<in> set (calls (last_frame (trial i ans fr)))) = psd_spec (self fr)"
    and "((i, NSD) \<in> set (calls (last_frame (trial i ans fr)))) = nsd_spec (self fr)"
proof -
  have old: "(i, PSD) \<notin> set (calls fr)" "(i, NSD) \<notin> set (calls fr)"
    using assms by (auto simp: fresh_def list_all_iff)
  have st: "psd_status fr = Some SOLVED \<Longrightarrow> psd_spec (self fr)"
    using assms by (auto simp: fresh_def)
  show "fully_bounded_directions (self (last_frame (trial i ans fr))) =
           fully_bounded_directions (self fr) +
           (if psd_spec (self fr) \<and> nsd_spec (self fr) \<and>
               fst (fst ans) = SOLVED \<and> fst (snd ans) = SOLVED then 1 else 0)"
    using st
    by (auto simp: trial_def nsd_block_counter psd_block_counter psd_block_status
        psd_block_nsd_spec)
  show "((i, PSD) \<in> set (calls (last_frame (trial i ans fr)))) = psd_spec (self fr)"
    using old by (simp add: trial_def nsd_block_calls psd_block_calls)
  show "((i, NSD) \<in> set (calls (last_frame (trial i ans fr)))) = nsd_spec (self fr)"
    using old by (simp add: trial_def nsd_block_calls psd_block_calls psd_block_nsd_spec)
qed

lemma frame_reached:
  assumes "solve_loop orc j 0 (enter s) = Inr fr"
  shows "frame_at orc s (Suc j) = last_frame (trial j (orc j) fr)" and "fresh j fr"
proof -
  show "frame_at orc s (Suc j) = last_frame (trial j (orc j) fr)"
    by (simp add: frame_at_def solve_loop_snoc assms del: solve_loop.simps)
  have "frame_at orc s j = fr" by (simp add: frame_at_def assms)
  then show "fresh j fr" using frame_at_fresh [of j orc s] by simp
qed

lemma frame_raised:
  assumes "solve_loop orc j 0 (enter s) = Inl x"
  shows "frame_at orc s (Suc j) = frame_at orc s j"
  by (cases x) (simp add: frame_at_def solve_loop_snoc assms del: solve_loop.simps)

text \<open>
  Claim C3. In \<^verbatim>\<open>solve\<close>, trial \<open>j\<close> increments \<^verbatim>\<open>fully_bounded_directions\<close> (by one)
  exactly when both the PSD and the NSD sub-problem of trial \<open>j\<close> itself are put to the
  solver and both come back solved. When the loop reaches trial \<open>j\<close> with the frame \<open>fr\<close>
  (no earlier trial raised), the PSD sub-problem of trial \<open>j\<close> is put to the solver exactly
  when \<^verbatim>\<open>psd_spec\<close> holds in \<open>fr\<close>, the NSD sub-problem exactly when \<^verbatim>\<open>nsd_spec\<close> does, and
  the counter after the trial is the counter of \<open>fr\<close>, plus one when both flags hold and
  both answers of trial \<open>j\<close> are solved, plus nothing otherwise: a status left in
  \<^verbatim>\<open>psd_status\<close> by an earlier trial, or no PSD call at all, adds nothing. When an earlier
  trial raised, the loop has ended and trial \<open>j\<close> changes nothing. In terms of the log:
  the counter after the first \<open>j + 1\<close> trials is the counter after the first \<open>j\<close>, plus one
  exactly when the log holds both calls of trial \<open>j\<close> and both answers are solved. The
  counter the call leaves behind is the one of its last frame.
\<close>

theorem both_solved_counts:
  "(solve_loop orc j 0 (enter s) = Inr fr \<longrightarrow>
      fully_bounded_directions (self (frame_at orc s (Suc j))) =
        fully_bounded_directions (self fr) +
        (if psd_spec (self fr) \<and> nsd_spec (self fr) \<and>
            fst (fst (orc j)) = SOLVED \<and> fst (snd (orc j)) = SOLVED then 1 else 0) \<and>
      ((j, PSD) \<in> set (calls (frame_at orc s (Suc j)))) = psd_spec (self fr) \<and>
      ((j, NSD) \<in> set (calls (frame_at orc s (Suc j)))) = nsd_spec (self fr)) \<and>
   (solve_loop orc j 0 (enter s) = Inl x \<longrightarrow> frame_at orc s (Suc j) = frame_at orc s j) \<and>
   fully_bounded_directions (self (frame_at orc s (Suc j))) =
     fully_bounded_directions (self (frame_at orc s j)) +
     (if both_solved orc (calls (frame_at orc s (Suc j))) j then 1 else 0) \<and>
   fully_bounded_directions (self (frame_at orc s 0)) = fully_bounded_directions s \<and>
   fully_bounded_directions (after (solve n orc s)) =
     fully_bounded_directions (self (frame_at orc s (nat n)))"
proof -
  have a: "fully_bounded_directions (self (frame_at orc s (Suc j))) =
        fully_bounded_directions (self fr) +
        (if psd_spec (self fr) \<and> nsd_spec (self fr) \<and>
            fst (fst (orc j)) = SOLVED \<and> fst (snd (orc j)) = SOLVED then 1 else 0) \<and>
      ((j, PSD) \<in> set (calls (frame_at orc s (Suc j)))) = psd_spec (self fr) \<and>
      ((j, NSD) \<in> set (calls (frame_at orc s (Suc j)))) = nsd_spec (self fr)"
    if r: "solve_loop orc j 0 (enter s) = Inr fr"
    using trial_flags [OF frame_reached(2) [OF r], of "orc j"]
    by (simp only: frame_reached(1) [OF r])
  have b: "frame_at orc s (Suc j) = frame_at orc s j"
    if r: "solve_loop orc j 0 (enter s) = Inl x"
    using r by (rule frame_raised)
  show ?thesis
    using a b frame_step [of orc s j] solve_counter [of n orc s]
    by (simp add: frame_at_def enter_def)
qed

theorem both_solved_counts_witness:
  "solve_loop mixed 0 0 (enter pencil0) = Inr (enter pencil0) \<and>
   fully_bounded_directions (self (frame_at mixed pencil0 (Suc 0))) = 1 \<and>
   (0, PSD) \<in> set (calls (frame_at mixed pencil0 (Suc 0))) \<and>
   (0, NSD) \<in> set (calls (frame_at mixed pencil0 (Suc 0))) \<and>
   solve_loop mixed 2 0 (enter pencil0) =
     Inr \<lparr> self = pencil0\<lparr>mins := [[0, 0, 0], [0, 0, 0], [0, 0, 0]], psd_spec := False,
                          fully_bounded_directions := 1\<rparr>,
           psd_status = Some INFEASIBLE, calls = [(0, PSD), (0, NSD), (1, PSD), (1, NSD)] \<rparr> \<and>
   fully_bounded_directions (self (frame_at mixed pencil0 (Suc 2))) = 1 \<and>
   (2, PSD) \<notin> set (calls (frame_at mixed pencil0 (Suc 2))) \<and>
   (2, NSD) \<in> set (calls (frame_at mixed pencil0 (Suc 2))) \<and>
   solve_loop always_solved 1 0 (enter psd_latched) =
     Inl (NameError,
          \<lparr> self = psd_latched\<lparr>mins := [[0, 0, 0], [0, 0, 0]]\<rparr>, psd_status = None,
            calls = [(0, NSD)] \<rparr>) \<and>
   frame_at always_solved psd_latched (Suc 1) = frame_at always_solved psd_latched 1"
proof -
  have p: "psd_spec pencil0" "nsd_spec pencil0" "fully_bounded_directions pencil0 = 0"
    by (simp_all add: pencil0_def sdp_init_def)
  have m: "fst (fst (mixed 0)) = SOLVED" "fst (snd (mixed 0)) = SOLVED"
    "fst (fst (mixed 2)) = SOLVED" "fst (snd (mixed 2)) = SOLVED"
    by (simp_all add: mixed_def)
  have l0: "solve_loop mixed 0 0 (enter pencil0) = Inr (enter pencil0)" by simp
  have l2: "solve_loop mixed 2 0 (enter pencil0) =
     Inr \<lparr> self = pencil0\<lparr>mins := [[0, 0, 0], [0, 0, 0], [0, 0, 0]], psd_spec := False,
                          fully_bounded_directions := 1\<rparr>,
           psd_status = Some INFEASIBLE, calls = [(0, PSD), (0, NSD), (1, PSD), (1, NSD)] \<rparr>"
    by (simp add: numeral_2_eq_2 trial_def psd_block_def nsd_block_def enter_def
        psd_status_is_def append_min_def Let_def mixed_def p pencil0_def sdp_init_def)
  have s: "psd_latched = pencil0\<lparr>mins := [[0, 0, 0]], psd_spec := False, trials := 1\<rparr>"
    by (simp add: psd_latched_def run_defs psd_infeasible_def)
  have l1: "solve_loop always_solved 1 0 (enter psd_latched) =
     Inl (NameError,
          \<lparr> self = psd_latched\<lparr>mins := [[0, 0, 0], [0, 0, 0]]\<rparr>, psd_status = None,
            calls = [(0, NSD)] \<rparr>)"
    by (simp add: s trial_def psd_block_def nsd_block_def enter_def psd_status_is_def
        append_min_def Let_def always_solved_def pencil0_def sdp_init_def)
  note c0 = both_solved_counts [where orc = mixed and s = pencil0 and j = 0,
      THEN conjunct1, rule_format, OF l0]
  note c2 = both_solved_counts [where orc = mixed and s = pencil0 and j = 2,
      THEN conjunct1, rule_format, OF l2]
  note c1 = both_solved_counts [where orc = always_solved and s = psd_latched and j = 1,
      THEN conjunct2, THEN conjunct1, rule_format, OF l1]
  have r0: "fully_bounded_directions (self (frame_at mixed pencil0 (Suc 0))) = 1"
    "(0, PSD) \<in> set (calls (frame_at mixed pencil0 (Suc 0)))"
    "(0, NSD) \<in> set (calls (frame_at mixed pencil0 (Suc 0)))"
    using c0 by (simp_all add: enter_def p m)
  have r2: "fully_bounded_directions (self (frame_at mixed pencil0 (Suc 2))) = 1"
    "(2, PSD) \<notin> set (calls (frame_at mixed pencil0 (Suc 2)))"
    "(2, NSD) \<in> set (calls (frame_at mixed pencil0 (Suc 2)))"
    using c2 by (simp_all add: p m)
  show ?thesis by (intro conjI l0 r0 l2 r2 l1 c1)
qed

subsection \<open>The unbound local\<close>

lemma nat_pos_Suc: "1 \<le> n \<Longrightarrow> \<exists>k. nat n = Suc k"
  by (cases "nat n") auto

text \<open>
  Claim C10. A call \<^verbatim>\<open>solve(n)\<close> with \<open>n \<ge> 1\<close>, entered with \<^verbatim>\<open>psd_spec\<close> false and
  \<^verbatim>\<open>nsd_spec\<close> true, whose first NSD sub-problem comes back solved or unbounded, reads the
  local \<^verbatim>\<open>psd_status\<close> before any assignment: the call raises \<^verbatim>\<open>NameError\<close> in its first
  trial (after appending the minimum, when the status is solved), and \<^verbatim>\<open>trials\<close> is not
  advanced.
\<close>

theorem solve_reads_unbound_psd_status:
  assumes "\<not> psd_spec s" and "nsd_spec s" and "1 \<le> n"
    and "fst (snd (orc 0)) = SOLVED \<or> fst (snd (orc 0)) = UNBOUNDED"
  shows "solve n orc s =
           Inl (NameError, if fst (snd (orc 0)) = SOLVED then append_min (snd (orc 0)) s else s)"
proof -
  obtain k where k: "nat n = Suc k" using assms(3) nat_pos_Suc by blast
  have p: "psd_block 0 (fst (orc 0)) (enter s) = enter s"
    using assms(1) by (simp add: psd_block_def enter_def)
  have "trial 0 (orc 0) (enter s) =
          Inl (NameError,
               (enter s)\<lparr>self := (if fst (snd (orc 0)) = SOLVED
                                   then append_min (snd (orc 0)) s else s),
                         calls := [(0, NSD)]\<rparr>)"
    using assms(2,4) unfolding trial_def p
    by (auto simp: nsd_block_def enter_def psd_status_is_def Let_def append_min_def
        split: prod.splits)
  then show ?thesis
    by (simp add: solve_def solve_body_def k)
qed

theorem solve_reads_unbound_psd_status_witness:
  "\<not> psd_spec psd_latched \<and> nsd_spec psd_latched \<and> (1::int) \<le> 2 \<and>
   fst (snd (always_solved 0)) = SOLVED \<and>
   solve 2 always_solved psd_latched =
     Inl (NameError, psd_latched\<lparr>mins := [[0, 0, 0], [0, 0, 0]]\<rparr>)"
proof -
  have s: "psd_latched = pencil0\<lparr>mins := [[0, 0, 0]], psd_spec := False, trials := 1\<rparr>"
    by (simp add: psd_latched_def run_defs psd_infeasible_def)
  have h: "\<not> psd_spec psd_latched" "nsd_spec psd_latched"
    "fst (snd (always_solved 0)) = SOLVED \<or> fst (snd (always_solved 0)) = UNBOUNDED"
    by (simp_all add: s pencil0_def sdp_init_def always_solved_def)
  show ?thesis
    using solve_reads_unbound_psd_status [of psd_latched 2 always_solved] h
    by (simp add: always_solved_def append_min_def s)
qed

subsection \<open>A status that is none of the three\<close>

text \<open>
  Claim C4 says that a status outside solved, infeasible, unbounded raises a
  \<^verbatim>\<open>SolverStatusError\<close> and that the trial's contribution is skipped. The code raises
  nothing and skips nothing but the sub-problem itself: with an unknown status for the PSD
  sub-problem of the only trial and a solved NSD sub-problem, the call returns, both
  sub-problems were put to the solver, and the minimum of that very trial is recorded.
\<close>

theorem unknown_status_counterexample:
  "solve 1 unknown_then_solved pencil0 = Inr (pencil0\<lparr>mins := [[1, 2, 3]], trials := 1\<rparr>) \<and>
   solver_calls 1 unknown_then_solved pencil0 = [(0, PSD), (0, NSD)]"
  by (simp add: run_defs solver_calls_def unknown_then_solved_def)

lemma psd_block_other:
  "other_status (fst a) \<Longrightarrow>
     psd_block i a fr =
       (if psd_spec (self fr)
        then fr\<lparr>psd_status := Some (fst a), calls := calls fr @ [(i, PSD)]\<rparr> else fr)"
  by (simp add: psd_block_def other_status_def Let_def)

lemma nsd_block_other:
  "other_status (fst a) \<Longrightarrow>
     nsd_block i a fr =
       Inr (if nsd_spec (self fr) then fr\<lparr>calls := calls fr @ [(i, NSD)]\<rparr> else fr)"
  by (simp add: nsd_block_def other_status_def Let_def)

lemma nsd_block_bound:
  "psd_status fr \<noteq> None \<Longrightarrow> \<exists>fr'. nsd_block i a fr = Inr fr'"
  by (auto simp: nsd_block_def psd_status_is_def Let_def split: option.splits bool.splits)

lemma trial_other_returns:
  assumes "(psd_spec (self fr) \<and> other_status (fst (fst ans))) \<or> other_status (fst (snd ans))"
  shows "trial i ans fr = Inr (last_frame (trial i ans fr))"
proof -
  from assms have "\<exists>fr'. trial i ans fr = Inr fr'"
  proof
    assume "psd_spec (self fr) \<and> other_status (fst (fst ans))"
    then have "psd_status (psd_block i (fst ans) fr) \<noteq> None"
      by (simp add: psd_block_status)
    then show ?thesis unfolding trial_def by (rule nsd_block_bound)
  next
    assume "other_status (fst (snd ans))"
    then show ?thesis by (simp add: trial_def nsd_block_other)
  qed
  then show ?thesis by auto
qed

lemma trial_psd_other:
  assumes "other_status (fst a)" and "psd_spec (self fr)"
  shows "trial i (a, b) fr =
           nsd_block i b (fr\<lparr>psd_status := Some (fst a), calls := calls fr @ [(i, PSD)]\<rparr>)"
    and "\<exists>fr'. trial i (a, b) fr = Inr fr'"
proof -
  show "trial i (a, b) fr =
           nsd_block i b (fr\<lparr>psd_status := Some (fst a), calls := calls fr @ [(i, PSD)]\<rparr>)"
    using assms by (simp add: trial_def psd_block_other)
  have "(psd_spec (self fr) \<and> other_status (fst (fst (a, b)))) \<or> other_status (fst (snd (a, b)))"
    using assms by simp
  from trial_other_returns [OF this, of i] show "\<exists>fr'. trial i (a, b) fr = Inr fr'"
    by blast
qed

lemma trial_nsd_other:
  assumes "other_status (fst b)"
  shows "trial i (a, b) fr =
           Inr (if nsd_spec (self fr)
                then (psd_block i a fr)\<lparr>calls := calls (psd_block i a fr) @ [(i, NSD)]\<rparr>
                else psd_block i a fr)"
  using assms by (simp add: trial_def nsd_block_other psd_block_nsd_spec)

text \<open>
  Claim C4, amended. A sub-problem whose status is none of solved, infeasible, unbounded
  raises no error and adds nothing to the object: the PSD block only binds the local
  \<^verbatim>\<open>psd_status\<close> (and logs its call), the NSD block only logs its call. The other
  sub-problem of the same trial is still handled as usual: when the PSD sub-problem is put
  to the solver and answers such a status, the trial is the NSD block, run on the
  unchanged object, and it returns; when the NSD sub-problem answers such a status, the
  trial returns what the PSD block made of the frame, with the NSD call logged when it was
  made. The loop then goes on with the remaining trials, from the frame of the trial.
\<close>

theorem other_status_is_passed_over:
  "(other_status (fst a) \<longrightarrow>
      psd_block i a fr =
        (if psd_spec (self fr)
         then fr\<lparr>psd_status := Some (fst a), calls := calls fr @ [(i, PSD)]\<rparr> else fr) \<and>
      nsd_block i a fr =
        Inr (if nsd_spec (self fr) then fr\<lparr>calls := calls fr @ [(i, NSD)]\<rparr> else fr)) \<and>
   (other_status (fst a) \<and> psd_spec (self fr) \<longrightarrow>
      trial i (a, b) fr =
        nsd_block i b (fr\<lparr>psd_status := Some (fst a), calls := calls fr @ [(i, PSD)]\<rparr>) \<and>
      (\<exists>fr'. trial i (a, b) fr = Inr fr')) \<and>
   (other_status (fst b) \<longrightarrow>
      trial i (a, b) fr =
        Inr (if nsd_spec (self fr)
             then (psd_block i a fr)\<lparr>calls := calls (psd_block i a fr) @ [(i, NSD)]\<rparr>
             else psd_block i a fr)) \<and>
   ((psd_spec (self fr) \<and> other_status (fst (fst (orc i)))) \<or> other_status (fst (snd (orc i)))
      \<longrightarrow> solve_loop orc (Suc k) i fr =
            solve_loop orc k (Suc i) (last_frame (trial i (orc i) fr)))"
proof -
  have "solve_loop orc (Suc k) i fr = solve_loop orc k (Suc i) (last_frame (trial i (orc i) fr))"
    if h: "(psd_spec (self fr) \<and> other_status (fst (fst (orc i)))) \<or> other_status (fst (snd (orc i)))"
  proof -
    obtain fr' where r: "trial i (orc i) fr = Inr fr'"
      using trial_other_returns [OF h, of i] by blast
    show ?thesis by (subst solve_loop.simps(2)) (simp add: r)
  qed
  then show ?thesis
    using psd_block_other [of a i fr] nsd_block_other [of a i fr]
      trial_psd_other [of a fr i b] trial_nsd_other [of b i a fr]
    by blast
qed

theorem other_status_is_passed_over_witness:
  "other_status (fst (fst (unknown_then_solved 0))) \<and>
   psd_spec (self (enter pencil0)) \<and>
   psd_block 0 (fst (unknown_then_solved 0)) (enter pencil0) =
     (enter pencil0)\<lparr>psd_status := Some (OTHER ''unknown''), calls := [(0, PSD)]\<rparr> \<and>
   nsd_block 0 (fst (unknown_then_solved 0)) (enter pencil0) =
     Inr ((enter pencil0)\<lparr>calls := [(0, NSD)]\<rparr>) \<and>
   trial 0 (unknown_then_solved 0) (enter pencil0) =
     Inr \<lparr> self = pencil0\<lparr>mins := [[1, 2, 3]]\<rparr>, psd_status = Some (OTHER ''unknown''),
           calls = [(0, PSD), (0, NSD)] \<rparr> \<and>
   other_status (fst (snd (solved_then_unknown 0))) \<and>
   trial 0 (solved_then_unknown 0) (enter pencil0) =
     Inr \<lparr> self = pencil0\<lparr>mins := [[1, 2, 3]]\<rparr>, psd_status = Some SOLVED,
           calls = [(0, PSD), (0, NSD)] \<rparr> \<and>
   solve_loop unknown_then_solved (Suc 1) 0 (enter pencil0) =
     solve_loop unknown_then_solved 1 (Suc 0)
       (last_frame (trial 0 (unknown_then_solved 0) (enter pencil0)))"
proof -
  have h: "other_status (fst (fst (unknown_then_solved 0)))" "psd_spec (self (enter pencil0))"
    "nsd_spec (self (enter pencil0))" "calls (enter pencil0) = []"
    "other_status (fst (snd (solved_then_unknown 0)))"
    by (simp_all add: unknown_then_solved_def solved_then_unknown_def other_status_def
        enter_def pencil0_def sdp_init_def)
  have v: "fst (fst (unknown_then_solved 0)) = OTHER ''unknown''"
    by (simp add: unknown_then_solved_def)
  have u: "unknown_then_solved 0 = (fst (unknown_then_solved 0), snd (unknown_then_solved 0))"
    "solved_then_unknown 0 = (fst (solved_then_unknown 0), snd (solved_then_unknown 0))"
    by simp_all
  note w = other_status_is_passed_over [of "fst (unknown_then_solved 0)" 0 "enter pencil0"
      "snd (unknown_then_solved 0)" unknown_then_solved 1]
  note w' = other_status_is_passed_over [of "fst (solved_then_unknown 0)" 0 "enter pencil0"
      "snd (solved_then_unknown 0)" solved_then_unknown 1]
  have b: "psd_block 0 (fst (unknown_then_solved 0)) (enter pencil0) =
     (enter pencil0)\<lparr>psd_status := Some (OTHER ''unknown''), calls := [(0, PSD)]\<rparr>"
    "nsd_block 0 (fst (unknown_then_solved 0)) (enter pencil0) =
     Inr ((enter pencil0)\<lparr>calls := [(0, NSD)]\<rparr>)"
    using w h by (simp_all add: v)
  have t1: "trial 0 (unknown_then_solved 0) (enter pencil0) =
     nsd_block 0 (snd (unknown_then_solved 0))
       ((enter pencil0)\<lparr>psd_status := Some (OTHER ''unknown''), calls := [(0, PSD)]\<rparr>)"
    using w h by (simp add: v u(1) [symmetric])
  have t1': "trial 0 (unknown_then_solved 0) (enter pencil0) =
     Inr \<lparr> self = pencil0\<lparr>mins := [[1, 2, 3]]\<rparr>, psd_status = Some (OTHER ''unknown''),
           calls = [(0, PSD), (0, NSD)] \<rparr>"
    unfolding t1
    by (simp add: nsd_block_def unknown_then_solved_def enter_def psd_status_is_def
        append_min_def Let_def pencil0_def sdp_init_def)
  have t2: "trial 0 (solved_then_unknown 0) (enter pencil0) =
     Inr (if nsd_spec (self (enter pencil0))
          then (psd_block 0 (fst (solved_then_unknown 0)) (enter pencil0))
                 \<lparr>calls := calls (psd_block 0 (fst (solved_then_unknown 0)) (enter pencil0)) @
                           [(0, NSD)]\<rparr>
          else psd_block 0 (fst (solved_then_unknown 0)) (enter pencil0))"
    using w' h by (simp add: u(2) [symmetric])
  have t2': "trial 0 (solved_then_unknown 0) (enter pencil0) =
     Inr \<lparr> self = pencil0\<lparr>mins := [[1, 2, 3]]\<rparr>, psd_status = Some SOLVED,
           calls = [(0, PSD), (0, NSD)] \<rparr>"
    unfolding t2
    by (simp add: psd_block_def solved_then_unknown_def enter_def append_min_def Let_def
        pencil0_def sdp_init_def)
  have l: "solve_loop unknown_then_solved (Suc 1) 0 (enter pencil0) =
     solve_loop unknown_then_solved 1 (Suc 0)
       (last_frame (trial 0 (unknown_then_solved 0) (enter pencil0)))"
    using w h by (simp del: solve_loop.simps One_nat_def)
  show ?thesis by (intro conjI h(1) h(2) b t1' h(5) t2' l)
qed

section \<open>Properties of \<^verbatim>\<open>get_nodes_from_singular\<close>\<close>

lemma tmpfile7: "tmpdir @ ''/'' @ str_nat 7 = ''tmp/7''"
  by (simp add: tmpdir_def str_nat.simps [of 7] digit_def)

text \<open>
  Claim C5 says that the temporary file is deleted before the call returns, also when the
  external program fails. The method removes the file on the line after
  \<^verbatim>\<open>subprocess.check_output\<close>, with no \<^verbatim>\<open>try\<close> around the call: when the program fails the
  exception leaves the method and the file \<^verbatim>\<open>tmp/7\<close> stays, with the script in it. When
  the program answers, the file is removed.
\<close>

theorem tmpfile_left_behind:
  "get_nodes_from_singular failing_singular fs0 =
     (fs0\<lparr>files := [''tmp/7'' \<mapsto> ''ideal I = 0;'']\<rparr>, Inl CalledProcessError) \<and>
   get_nodes_from_singular working_singular fs0 = (fs0, Inr [])"
proof -
  have r: "randrange failing_singular = 7" "randrange working_singular = 7"
    by (simp_all add: failing_singular_def working_singular_def)
  show ?thesis
    unfolding get_nodes_from_singular_def r tmpfile7
    by (simp add: failing_singular_def working_singular_def fs0_def os_remove_def Let_def
        tmpdir_def)
qed

section \<open>Properties of \<^verbatim>\<open>eigenvalues\<close>\<close>









section \<open>Properties of \<^verbatim>\<open>get_nodes\<close>\<close>












section \<open>Properties of \<^verbatim>\<open>process\<close>\<close>

lemma count_loop_same_dim:
  "list_all (\<lambda>x. length x = length yy) ms \<Longrightarrow>
     count_loop fl md yy ms c = Inr (c + int (matched fl md yy ms))"
proof (induction ms arbitrary: c)
  case Nil
  then show ?case by (simp add: matched_def)
next
  case (Cons x xs)
  then have l: "length x = length yy" and r: "list_all (\<lambda>x. length x = length yy) xs"
    by simp_all
  have s: "np_sub fl x yy = Inr (map2 (fl_minus fl) x yy)" by (simp add: np_sub_def l)
  show ?case
    using Cons.IH [OF r] by (simp add: s matched_def euclid_def)
qed

lemma match_loop_same_dim:
  "list_all (\<lambda>x. length x = d) ms \<Longrightarrow> list_all (\<lambda>y. length (fst y) = d) ys \<Longrightarrow>
     match_loop fl md ms ys =
       Inr (map (\<lambda>(p, c, e). (p, c + int (matched fl md p ms), e)) ys)"
proof (induction ys)
  case Nil
  then show ?case by simp
next
  case (Cons y ys)
  obtain p c e where y: "y = (p, c, e)" by (cases y)
  have lp: "length p = d" and r: "list_all (\<lambda>y. length (fst y) = d) ys"
    using Cons.prems(2) by (simp_all add: y)
  have "list_all (\<lambda>x. length x = length p) ms" using Cons.prems(1) lp by simp
  then have c: "count_loop fl md p ms c = Inr (c + int (matched fl md p ms))"
    by (rule count_loop_same_dim)
  show ?case
    using Cons.IH [OF Cons.prems(1) r] by (simp add: y c)
qed

lemma maxdelta_of_eq: "maxdelta_of fl tolerance y ys = max_delta fl tolerance (y # ys)"
  by (simp add: maxdelta_of_def max_delta_def Max.set_eq_fold [symmetric] del: Max.set_eq_fold)

lemma match_same_dim:
  assumes "pmins s \<noteq> []" and "same_dim d s"
  shows "match fl tolerance s =
           Inr (s\<lparr>pmins := map (\<lambda>(p, c, e).
                     (p, c + int (matched fl (max_delta fl tolerance (pmins s)) p (mins s)), e))
                   (pmins s)\<rparr>)"
proof -
  obtain y ys where p: "pmins s = y # ys" using assms(1) by (cases "pmins s") auto
  have m: "list_all (\<lambda>x. length x = d) (mins s)"
    and q: "list_all (\<lambda>y. length (fst y) = d) (y # ys)"
    using assms(2) by (simp_all add: same_dim_def p)
  show ?thesis
    using match_loop_same_dim [OF m q, of fl "max_delta fl tolerance (y # ys)"]
    by (simp add: match_def p maxdelta_of_eq)
qed

text \<open>
  Claim C6. \<^verbatim>\<open>process(tolerance)\<close>, once the nodes are known (\<open>s1\<close> is the object after
  the discovery step, with a list \<^verbatim>\<open>pmins\<close> that is not empty and points of one
  dimension), returns; it uses one threshold for every node, the computed product of the
  tolerance and the largest computed norm of a node of \<^verbatim>\<open>pmins\<close>, and adds to the count
  of each node the number of raw minima whose computed distance to the node (the norm of
  the difference) is at most that threshold: a minimum at exactly that distance counts.
  Then \<^verbatim>\<open>mins\<close> is emptied. This holds for whatever the double arithmetic computes.
\<close>

theorem process_counts_within_max_delta:
  assumes "discover sv h s = Inr s1" and "pmins s1 \<noteq> []" and "same_dim d s1"
  shows "process fl sv h tolerance s =
           Inr (s1\<lparr>pmins := map (\<lambda>(p, c, e).
                      (p, c + int (matched fl (max_delta fl tolerance (pmins s1)) p (mins s1)),
                       e))
                    (pmins s1),
                   mins := []\<rparr>)"
  using match_same_dim [OF assms(2,3), of fl tolerance]
  by (simp add: process_def assms(1))

lemma norm_axis: "linalg_norm [a, 0, 0] = \<bar>a\<bar>"
  by (simp add: linalg_norm_def)

lemma norm_unit: "linalg_norm [1, 0, 0] = 1" "linalg_norm [0, 0, 0] = 0"
  by (simp_all add: linalg_norm_def)

lemma exact_simps [simp]:
  "fl_times exact a b = a * b" "fl_minus exact a b = a - b" "fl_norm exact v = linalg_norm v"
  by (simp_all add: exact_def)

lemma rounding_simps:
  "fl_times rounding tenth 3 = d30" "fl_minus rounding a b = a - b"
  "fl_norm rounding v = linalg_norm v"
  by (simp_all add: rounding_def)

lemma d30_bounds: "0 < d30" "d30 < 3 / 2" "tenth * 3 < d30"
  by (simp_all add: d30_def tenth_def)

theorem process_counts_within_max_delta_witness:
  "discover svd0 (Inr []) boundary_state = Inr boundary_state \<and>
   pmins boundary_state \<noteq> [] \<and> same_dim 3 boundary_state \<and>
   max_delta exact 1 (pmins boundary_state) = 1 \<and>
   euclid exact [0, 0, 0] [1, 0, 0] = 1 \<and>
   process exact svd0 (Inr []) 1 boundary_state =
     Inr (boundary_state\<lparr>pmins := [([1, 0, 0], 1, [1, 1, 0]), ([0, 0, 0], 2, [0, 0, 0])],
                          mins := []\<rparr>) \<and>
   discover svd0 (Inr []) rounded_state = Inr rounded_state \<and>
   pmins rounded_state \<noteq> [] \<and> same_dim 3 rounded_state \<and>
   max_delta rounding tenth (pmins rounded_state) = d30 \<and> tenth * 3 < d30 \<and>
   euclid rounding [d30, 0, 0] [0, 0, 0] = d30 \<and>
   process rounding svd0 (Inr []) tenth rounded_state =
     Inr (rounded_state\<lparr>pmins := [([3, 0, 0], 0, [3, 3, 0]), ([0, 0, 0], 1, [0, 0, 0])],
                         mins := []\<rparr>)"
proof -
  have d: "discover svd0 (Inr []) boundary_state = Inr boundary_state"
    by (simp add: discover_def boundary_state_def)
  have n: "pmins boundary_state \<noteq> []" by (simp add: boundary_state_def)
  have sd: "same_dim 3 boundary_state" by (simp add: same_dim_def boundary_state_def)
  have m: "mins boundary_state = [[0, 0, 0], [0, 1 / 2, 0]]"
    "pmins boundary_state = [([1, 0, 0], 0, [1, 1, 0]), ([0, 0, 0], 0, [0, 0, 0])]"
    by (simp_all add: boundary_state_def)
  have md: "max_delta exact 1 [([1, 0, 0], 0, [1, 1, 0]), ([0, 0, 0], 0, [0, 0, 0])] = 1"
    by (simp add: max_delta_def norm_unit)
  have e: "euclid exact [0, 0, 0] [1, 0, 0] = 1" "euclid exact [0, 1 / 2, 0] [1, 0, 0] > 1"
    "euclid exact [0, 0, 0] [0, 0, 0] = 0" "euclid exact [0, 1 / 2, 0] [0, 0, 0] \<le> 1"
    by (simp_all add: euclid_def linalg_norm_def)
  have one: "process exact svd0 (Inr []) 1 boundary_state =
     Inr (boundary_state\<lparr>pmins := [([1, 0, 0], 1, [1, 1, 0]), ([0, 0, 0], 2, [0, 0, 0])],
                          mins := []\<rparr>)"
    using process_counts_within_max_delta [OF d n sd, of exact 1] e
    by (simp add: md m matched_def)
  have d': "discover svd0 (Inr []) rounded_state = Inr rounded_state"
    by (simp add: discover_def rounded_state_def)
  have n': "pmins rounded_state \<noteq> []" by (simp add: rounded_state_def)
  have sd': "same_dim 3 rounded_state" by (simp add: same_dim_def rounded_state_def)
  have m': "mins rounded_state = [[d30, 0, 0]]"
    "pmins rounded_state = [([3, 0, 0], 0, [3, 3, 0]), ([0, 0, 0], 0, [0, 0, 0])]"
    by (simp_all add: rounded_state_def)
  have md': "max_delta rounding tenth [([3, 0, 0], 0, [3, 3, 0]), ([0, 0, 0], 0, [0, 0, 0])] = d30"
    by (simp add: max_delta_def rounding_simps norm_axis)
  have e': "euclid rounding [d30, 0, 0] [0, 0, 0] = d30"
    "\<not> euclid rounding [d30, 0, 0] [3, 0, 0] \<le> d30"
    using d30_bounds by (simp_all add: euclid_def rounding_simps norm_axis)
  have two: "process rounding svd0 (Inr []) tenth rounded_state =
     Inr (rounded_state\<lparr>pmins := [([3, 0, 0], 0, [3, 3, 0]), ([0, 0, 0], 1, [0, 0, 0])],
                         mins := []\<rparr>)"
    using process_counts_within_max_delta [OF d' n' sd', of rounding tenth] e'
    by (simp add: md' m' matched_def)
  show ?thesis
    using d n sd md e(1) one d' n' sd' md' e'(1) two d30_bounds(3)
    by (simp add: m m')
qed

section \<open>Properties of \<^verbatim>\<open>gen_nodes\<close>\<close>

lemma ratio_loop_nonzero:
  "t \<noteq> 0 \<Longrightarrow>
     ratio_loop t ps acc =
       Inr (acc @ map (\<lambda>(p, c, e). (p, real_of_int c / real_of_int t, e)) ps)"
proof (induction ps arbitrary: acc)
  case Nil
  then show ?case by simp
next
  case (Cons y ys)
  obtain p c e where y: "y = (p, c, e)" by (cases y)
  show ?case using Cons.IH [OF Cons.prems] Cons.prems by (simp add: y py_truediv_def)
qed

lemma classify_trials: "trials (after (classify sv vs s)) = trials s"
proof (induction vs arbitrary: s)
  case Nil
  then show ?case by (simp add: after_def)
next
  case (Cons v vs)
  show ?case
    by (simp add: Cons.IH split: sum.splits bool.splits) (simp add: after_def)
qed

lemma discover_trials: "trials (after (discover sv h s)) = trials s"
proof (cases "spec_nodes s = [] \<and> sym_nodes s = []")
  case False
  then show ?thesis by (auto simp: discover_def after_def)
next
  case True
  show ?thesis
  proof (cases h)
    case (Inl e)
    then show ?thesis using True by (simp add: discover_def get_nodes_def after_def)
  next
    case (Inr vs)
    then show ?thesis
      using True classify_trials [of sv vs s]
      by (simp add: discover_def get_nodes_def after_def split: sum.splits prod.splits)
  qed
qed

lemma match_trials: "trials (after (match fl tolerance s)) = trials s"
  by (simp add: match_def after_def split: list.splits sum.splits prod.splits)

lemma after_simps [simp]: "after (Inl (e, s)) = s" "after (Inr s) = s"
  by (simp_all add: after_def)

lemma process_trials: "process fl sv h tolerance s = Inr s1 \<Longrightarrow> trials s1 = trials s"
proof -
  assume p: "process fl sv h tolerance s = Inr s1"
  then obtain sa where d: "discover sv h s = Inr sa"
    by (cases "discover sv h s") (simp_all add: process_def)
  from p d obtain sb where m: "match fl tolerance sa = Inr sb"
    by (cases "match fl tolerance sa") (simp_all add: process_def)
  from p d m have s1: "s1 = sb\<lparr>mins := []\<rparr>" by (simp add: process_def)
  have "trials sa = trials s" using discover_trials [of sv h s] d by simp
  moreover have "trials sb = trials sa" using match_trials [of fl tolerance sa] m by simp
  ultimately show ?thesis by (simp add: s1)
qed

lemma prepare_trials: "prepare fl sv h s = Inr s1 \<Longrightarrow> trials s1 = trials s"
  by (auto simp: prepare_def dest: process_trials split: if_splits)

text \<open>
  Claim C9. With the trial counter at 0, \<^verbatim>\<open>gen_nodes\<close> reports probability 0 for every
  node of \<^verbatim>\<open>pmins\<close> (\<open>s1\<close> is the object after the call of \<^verbatim>\<open>process\<close>, when
  it is made and returns), and no division is made. The division never raises: whatever
  the counter, \<^verbatim>\<open>gen_nodes\<close> raises exactly when the call of \<^verbatim>\<open>process\<close> does, with
  the same exception, and returns otherwise.
\<close>

theorem zero_trials_report_zero:
  "(trials s = 0 \<and> prepare fl sv h s = Inr s1 \<longrightarrow>
      gen_nodes fl sv h s = Inr (s1\<lparr>nodes := map (\<lambda>i. (fst i, 0, snd (snd i))) (pmins s1)\<rparr>)) \<and>
   (prepare fl sv h s = Inl x \<longrightarrow> gen_nodes fl sv h s = Inl x) \<and>
   (prepare fl sv h s = Inr s1 \<longrightarrow> (\<exists>s'. gen_nodes fl sv h s = Inr s'))"
proof (intro conjI impI)
  assume "trials s = 0 \<and> prepare fl sv h s = Inr s1"
  then show "gen_nodes fl sv h s =
      Inr (s1\<lparr>nodes := map (\<lambda>i. (fst i, 0, snd (snd i))) (pmins s1)\<rparr>)"
    using prepare_trials [of fl sv h s s1] by (simp add: gen_nodes_def)
next
  assume "prepare fl sv h s = Inl x"
  then show "gen_nodes fl sv h s = Inl x" by (simp add: gen_nodes_def)
next
  assume "prepare fl sv h s = Inr s1"
  then show "\<exists>s'. gen_nodes fl sv h s = Inr s'"
    by (simp add: gen_nodes_def ratio_loop_nonzero Let_def)
qed


lemma matrix1_at_100: "matrix (matrices pencil1) [1, 0, 0] = Inr D0"
  by (simp add: matrix_def pencil1_def sdp_init_def np_scale_def np_add_def A0_def B0_def C0_def
      D0_def D1_def)

lemma eig1_at_100: "eigenvalues svd0 (matrices pencil1) [1, 0, 0] = Inr [0, 0, 0]"
  by (simp add: eigenvalues_def matrix1_at_100 svd0_def at2_def I3_def)

lemma same_sign_zero: "same_sign [0, 0, 0] = Inr True"
  by (simp add: same_sign_def py_or_def py_and_def ge0_def le0_def)

lemma discover_pencil1:
  "spec_nodes s = [] \<Longrightarrow> sym_nodes s = [] \<Longrightarrow> matrices s = matrices pencil1 \<Longrightarrow>
     discover svd0 (Inr [[1, 0, 0]]) s =
       Inr (s\<lparr>spec_nodes := [([1, 0, 0], [0, 0, 0])], pmins := [([1, 0, 0], 0, [0, 0, 0])]\<rparr>)"
  by (simp add: discover_def get_nodes_def eig1_at_100 same_sign_zero)

lemma fresh_prepare:
  "prepare exact svd0 (Inr [[1, 0, 0]]) pencil1 =
     Inr (pencil1\<lparr>spec_nodes := [([1, 0, 0], [0, 0, 0])], pmins := [([1, 0, 0], 0, [0, 0, 0])]\<rparr>)"
proof -
  have e: "spec_nodes pencil1 = []" "sym_nodes pencil1 = []" "mins pencil1 = []"
    by (simp_all add: pencil1_def sdp_init_def)
  show ?thesis
    by (simp add: prepare_def process_def e discover_pencil1 match_def maxdelta_of_def)
qed

theorem zero_trials_report_zero_witness:
  "trials pencil1 = 0 \<and>
   prepare exact svd0 (Inr [[1, 0, 0]]) pencil1 =
     Inr (pencil1\<lparr>spec_nodes := [([1, 0, 0], [0, 0, 0])], pmins := [([1, 0, 0], 0, [0, 0, 0])]\<rparr>) \<and>
   gen_nodes exact svd0 (Inr [[1, 0, 0]]) pencil1 =
     Inr (pencil1\<lparr>spec_nodes := [([1, 0, 0], [0, 0, 0])], pmins := [([1, 0, 0], 0, [0, 0, 0])],
                  nodes := [([1, 0, 0], 0, [0, 0, 0])]\<rparr>) \<and>
   prepare exact svd0 (Inl IOError) pencil1 = Inl (IOError, pencil1) \<and>
   gen_nodes exact svd0 (Inl IOError) pencil1 = Inl (IOError, pencil1)"
proof -
  have t: "trials pencil1 = 0" by (simp add: pencil1_def sdp_init_def)
  have f: "prepare exact svd0 (Inl IOError) pencil1 = Inl (IOError, pencil1)"
    by (simp add: prepare_def process_def discover_def get_nodes_def pencil1_def sdp_init_def)
  show ?thesis
    using zero_trials_report_zero [where s = pencil1 and fl = exact and sv = svd0
          and h = "Inr [[1, 0, 0]]" and x = "(IOError, pencil1)"]
      zero_trials_report_zero [where s = pencil1 and fl = exact and sv = svd0
          and h = "Inl IOError" and ?s1.0 = pencil1 and x = "(IOError, pencil1)"]
      t f fresh_prepare
    by simp
qed

subsection \<open>A probability above one\<close>

lemma sampled_once_eq:
  "sampled_once =
     pencil1\<lparr>mins := [[1, 0, 0], [1, 0, 0]], trials := 1, fully_bounded_directions := 1\<rparr>"
  by (simp add: sampled_once_def run_defs solved_at_node_def pencil1_def)

text \<open>
  Claim C1 says that with a trial count above 0 every probability of the ranking lies
  between 0 and 1. One trial can append two raw minima, one per component, and both can
  lie at the same node: on the pencil \<open>pencil1\<close>, after one trial in which both
  sub-problems are solved at the node \<open>(1, 0, 0)\<close>, the trial count is 1, the node has
  two occurrences and \<^verbatim>\<open>gen_nodes\<close> reports the probability 2. On these values the
  doubles round nothing (the differences are 0, the norms 0 and 1, and the threshold is the
  tolerance itself), so the arithmetic is \<open>exact\<close>.
\<close>

theorem probability_two:
  "trials sampled_once = 1 \<and>
   gen_nodes exact svd0 (Inr [[1, 0, 0]]) sampled_once =
     Inr (sampled_once\<lparr>mins := [], spec_nodes := [([1, 0, 0], [0, 0, 0])],
                       pmins := [([1, 0, 0], 2, [0, 0, 0])],
                       nodes := [([1, 0, 0], 2, [0, 0, 0])]\<rparr>)"
proof -
  have e: "spec_nodes sampled_once = []" "sym_nodes sampled_once = []"
    "mins sampled_once = [[1, 0, 0], [1, 0, 0]]" "matrices sampled_once = matrices pencil1"
    "trials sampled_once = 1"
    by (simp_all add: sampled_once_eq pencil1_def sdp_init_def)
  have s: "np_sub exact [1, 0, 0] [1, 0, 0] = Inr [0, 0, 0]" by (simp add: np_sub_def)
  have p: "prepare exact svd0 (Inr [[1, 0, 0]]) sampled_once =
             Inr (sampled_once\<lparr>mins := [], spec_nodes := [([1, 0, 0], [0, 0, 0])],
                               pmins := [([1, 0, 0], 2, [0, 0, 0])]\<rparr>)"
    by (simp add: prepare_def process_def e discover_pencil1 match_def maxdelta_of_def norm_unit s)
  show ?thesis
    by (simp add: gen_nodes_def p e Let_def py_truediv_def sort_desc_def)
qed

end
